theory Spec2Isabelle
  imports Main
begin

section \<open>The PostgreSQL schema of the trivia game\<close>

text \<open>
  The tables of \<^verbatim>\<open>create_tables\<close> (init_postgresql_database.py). A table is the list
  of its rows in storage order; a nullable column that a stored procedure can really
  leave NULL is an \<open>option\<close>. Timestamps and intervals are integers (microseconds), so
  that \<open>end_time - start_time\<close> is integer subtraction. Column names carry the alias
  the procedures use for their table (\<open>q\<close>, \<open>gs\<close>, \<open>pa\<close>, \<open>hs\<close>; \<open>pl\<close> for players,
  whose alias \<open>p\<close> would clash with the parameter \<open>p_username\<close>).
\<close>

type_synonym timestamp = int
type_synonym interval = int

record question =
  q_question_id :: nat
  q_correct_answer :: char

text \<open>Of a player only the key and the username are read by the game procedures.\<close>

record player =
  pl_player_id :: nat
  pl_username :: string

record game_session =
  gs_session_id :: nat
  gs_player_id :: "nat option"
  gs_start_time :: timestamp
  gs_end_time :: "timestamp option"
  gs_questions_solved :: nat
  gs_is_completed :: bool
  gs_is_active :: bool

record player_answer =
  pa_player_id :: nat
  pa_question_id :: nat
  pa_session_id :: nat
  pa_selected_answer :: char
  pa_is_correct :: bool
  pa_answered_at :: timestamp

record high_score =
  hs_score_id :: nat
  hs_player_id :: "nat option"
  hs_total_time :: interval
  hs_achieved_at :: timestamp

text \<open>
  The database: the five tables and the sequence behind \<open>game_sessions.session_id SERIAL\<close>
  (its last value).
\<close>

record database =
  questions :: "question list"
  players :: "player list"
  game_sessions :: "game_session list"
  player_answers :: "player_answer list"
  high_scores :: "high_score list"
  session_id_seq :: nat

text \<open>The errors PostgreSQL raises inside the procedures (psycopg2.DatabaseError).\<close>

datatype db_error =
  NotNullViolation
| CheckViolation
| UniqueViolation
| InvalidRowCountInLimit

section \<open>sp_update_high_scores: the insert-or-update of a leaderboard slot\<close>

text \<open>
  Lines 452-465 of init_postgresql_database.py, for the score \<open>correct_answers\<close>:
  \<^verbatim>\<open>
  IF EXISTS (SELECT 1 FROM high_scores WHERE score_id = correct_answers) THEN
      UPDATE high_scores
      SET player_id = v_player_id, total_time = v_total_time, achieved_at = v_end_time
      WHERE score_id = correct_answers AND total_time > v_total_time;
  ELSE
      INSERT INTO high_scores (score_id, player_id, total_time, achieved_at)
      VALUES (correct_answers, v_player_id, v_total_time, v_end_time);
  END IF;
  \<close>
  \<open>v_total_time\<close> and \<open>v_end_time\<close> can be NULL (a session completed without answers).
  A comparison with NULL selects no row; writing NULL into \<open>total_time\<close> or
  \<open>achieved_at\<close> violates NOT NULL; an inserted \<open>score_id\<close> outside 1..20 violates the
  CHECK. \<open>v_player_id\<close> was read from \<open>players\<close>, so the foreign key holds.
\<close>

definition update_high_score_row ::
    "nat \<Rightarrow> nat option \<Rightarrow> interval \<Rightarrow> timestamp option \<Rightarrow> high_score \<Rightarrow> db_error + high_score" where
  "update_high_score_row correct_answers v_player_id v_total_time v_end_time hs =
     (if hs_score_id hs = correct_answers \<and> hs_total_time hs > v_total_time
      then (case v_end_time of
              None \<Rightarrow> Inl NotNullViolation
            | Some e \<Rightarrow> Inr (hs\<lparr>hs_player_id := v_player_id, hs_total_time := v_total_time,
                                hs_achieved_at := e\<rparr>))
      else Inr hs)"

fun update_high_score_rows ::
    "nat \<Rightarrow> nat option \<Rightarrow> interval \<Rightarrow> timestamp option \<Rightarrow> high_score list
       \<Rightarrow> db_error + high_score list" where
  "update_high_score_rows c p t e [] = Inr []"
| "update_high_score_rows c p t e (hs # rest) =
     (case update_high_score_row c p t e hs of
        Inl err \<Rightarrow> Inl err
      | Inr hs' \<Rightarrow> (case update_high_score_rows c p t e rest of
                     Inl err \<Rightarrow> Inl err
                   | Inr rest' \<Rightarrow> Inr (hs' # rest')))"

definition upsert_high_score ::
    "high_score list \<Rightarrow> nat \<Rightarrow> nat option \<Rightarrow> interval option \<Rightarrow> timestamp option
       \<Rightarrow> db_error + high_score list" where
  "upsert_high_score tbl correct_answers v_player_id v_total_time v_end_time =
     (if \<exists>hs \<in> set tbl. hs_score_id hs = correct_answers
      then (case v_total_time of
              None \<Rightarrow> Inr tbl
            | Some t \<Rightarrow> update_high_score_rows correct_answers v_player_id t v_end_time tbl)
      else (case (v_total_time, v_end_time) of
              (Some t, Some e) \<Rightarrow>
                if 1 \<le> correct_answers \<and> correct_answers \<le> 20
                then Inr (tbl @ [\<lparr>hs_score_id = correct_answers, hs_player_id = v_player_id,
                                  hs_total_time = t, hs_achieved_at = e\<rparr>])
                else Inl CheckViolation
            | _ \<Rightarrow> Inl NotNullViolation))"

text \<open>
  A leaderboard submission: the player, the elapsed time and the achieved-at timestamp
  that a call of \<open>sp_update_high_scores\<close> has read from the tables when it reaches the
  insert-or-update (see \<open>submits\<close> below). \<open>submit\<close> is the insert-or-update for such
  values, \<open>submit_all\<close> its iteration; both are bookkeeping for the proofs about the
  procedure.
\<close>

type_synonym submission = "nat \<times> interval \<times> timestamp"

definition sub_player :: "submission \<Rightarrow> nat" where
  "sub_player s = fst s"

definition sub_time :: "submission \<Rightarrow> interval" where
  "sub_time s = fst (snd s)"

definition sub_at :: "submission \<Rightarrow> timestamp" where
  "sub_at s = snd (snd s)"

definition submit :: "high_score list \<Rightarrow> nat \<Rightarrow> submission \<Rightarrow> db_error + high_score list" where
  "submit tbl score s =
     upsert_high_score tbl score (Some (sub_player s)) (Some (sub_time s)) (Some (sub_at s))"

fun submit_all :: "high_score list \<Rightarrow> nat \<Rightarrow> submission list \<Rightarrow> db_error + high_score list" where
  "submit_all tbl score [] = Inr tbl"
| "submit_all tbl score (s # ss) =
     (case submit tbl score s of
        Inl err \<Rightarrow> Inl err
      | Inr tbl' \<Rightarrow> submit_all tbl' score ss)"

definition slot :: "high_score list \<Rightarrow> nat \<Rightarrow> high_score list" where
  "slot tbl score = filter (\<lambda>hs. hs_score_id hs = score) tbl"

definition slot_row :: "nat \<Rightarrow> submission \<Rightarrow> high_score" where
  "slot_row score s = \<lparr>hs_score_id = score, hs_player_id = Some (sub_player s),
                        hs_total_time = sub_time s, hs_achieved_at = sub_at s\<rparr>"


text \<open>
  Bookkeeping for the leaderboard proofs: the entry a slot keeps when it holds \<open>b\<close> and
  \<open>s\<close> is submitted.
\<close>

definition better :: "submission \<Rightarrow> submission \<Rightarrow> submission" where
  "better b s = (if sub_time s < sub_time b then s else b)"

section \<open>The lookups every game procedure starts with\<close>

text \<open>
  \<^verbatim>\<open>SELECT p.player_id INTO v_player_id FROM players p WHERE p.username = p_username\<close>:
  the first matching row, NULL when there is none.
\<close>

definition select_player_id :: "database \<Rightarrow> string \<Rightarrow> nat option" where
  "select_player_id db p_username =
     map_option pl_player_id (find (\<lambda>p. pl_username p = p_username) (players db))"

text \<open>
  \<^verbatim>\<open>SELECT gs.session_id INTO v_session_id FROM game_sessions gs
  WHERE gs.player_id = v_player_id AND gs.is_completed = FALSE AND is_active = TRUE\<close>.
  With \<open>v_player_id\<close> NULL the comparison is NULL and no row matches. Without STRICT,
  SELECT INTO keeps the first row of the scan.
\<close>

definition is_open_session_of :: "nat \<Rightarrow> game_session \<Rightarrow> bool" where
  "is_open_session_of pid gs \<longleftrightarrow>
     gs_player_id gs = Some pid \<and> \<not> gs_is_completed gs \<and> gs_is_active gs"

definition select_active_session :: "database \<Rightarrow> nat option \<Rightarrow> nat option" where
  "select_active_session db v_player_id =
     (case v_player_id of
        None \<Rightarrow> None
      | Some pid \<Rightarrow> map_option gs_session_id (find (is_open_session_of pid) (game_sessions db)))"

text \<open>The rows of \<open>player_answers\<close> a WHERE clause on session, or on player and session, selects.\<close>

definition answers_of_session :: "database \<Rightarrow> nat \<Rightarrow> player_answer list" where
  "answers_of_session db sid = filter (\<lambda>pa. pa_session_id pa = sid) (player_answers db)"

definition answers_of :: "database \<Rightarrow> nat option \<Rightarrow> nat option \<Rightarrow> player_answer list" where
  "answers_of db v_player_id v_session_id =
     (case (v_player_id, v_session_id) of
        (Some pid, Some sid) \<Rightarrow>
          filter (\<lambda>pa. pa_player_id pa = pid \<and> pa_session_id pa = sid) (player_answers db)
      | _ \<Rightarrow> [])"

section \<open>fn_get_unanswered_questions\<close>

text \<open>
  \<^verbatim>\<open>INSERT INTO game_sessions (player_id) VALUES (v_player_id) RETURNING session_id\<close>:
  the id is the next value of the sequence, \<open>start_time\<close> defaults to the clock, the other
  columns to NULL, 0, FALSE and TRUE. Every row of \<open>game_sessions\<close> gets its id here, so
  the primary key cannot clash.
\<close>

definition insert_game_session :: "database \<Rightarrow> nat option \<Rightarrow> timestamp \<Rightarrow> nat \<times> database" where
  "insert_game_session db v_player_id now =
     (let sid = session_id_seq db + 1
      in (sid, db\<lparr>game_sessions := game_sessions db @
                     [\<lparr>gs_session_id = sid, gs_player_id = v_player_id, gs_start_time = now,
                       gs_end_time = None, gs_questions_solved = 0,
                       gs_is_completed = False, gs_is_active = True\<rparr>],
                   session_id_seq := sid\<rparr>))"

text \<open>Lines 198-210: look the active session up, create one \<^verbatim>\<open>IF NOT FOUND\<close>.\<close>

definition get_or_create_active_session ::
    "database \<Rightarrow> nat option \<Rightarrow> timestamp \<Rightarrow> nat \<times> database" where
  "get_or_create_active_session db v_player_id now =
     (case select_active_session db v_player_id of
        Some sid \<Rightarrow> (sid, db)
      | None \<Rightarrow> insert_game_session db v_player_id now)"

text \<open>
  \<^verbatim>\<open>ORDER BY RANDOM()\<close>: the i-th row of the scan draws the key \<open>rand i\<close> and the rows
  are sorted by their keys.
\<close>

definition order_by_random :: "(nat \<Rightarrow> nat) \<Rightarrow> 'a list \<Rightarrow> 'a list" where
  "order_by_random rand rows =
     map snd (sort_key fst (zip (map rand [0..<length rows]) rows))"

definition unanswered_questions :: "database \<Rightarrow> nat option \<Rightarrow> nat \<Rightarrow> question list" where
  "unanswered_questions db v_player_id v_session_id =
     filter (\<lambda>q. q_question_id q \<notin>
                   set (map pa_question_id (answers_of db v_player_id (Some v_session_id))))
            (questions db)"

text \<open>
  The function returns the selected \<open>(question_id, correct_answer)\<close> rows and leaves the
  database with the session it may have created. A negative LIMIT is an error in
  PostgreSQL, raised when the session holds more than 20 answers. A session created by
  the same call holds none (\<open>player_answers.session_id\<close> references \<open>game_sessions\<close>), so
  the error and the insert do not occur together and the error returns no database.
\<close>

definition fn_get_unanswered_questions ::
    "database \<Rightarrow> string \<Rightarrow> timestamp \<Rightarrow> (nat \<Rightarrow> nat) \<Rightarrow> db_error + question list \<times> database" where
  "fn_get_unanswered_questions db p_username now rand =
     (let v_player_id = select_player_id db p_username;
          (v_session_id, db') = get_or_create_active_session db v_player_id now;
          questions_answered_count = length (answers_of db' v_player_id (Some v_session_id))
      in if questions_answered_count > 20 then Inl InvalidRowCountInLimit
         else Inr (take (20 - questions_answered_count)
                     (order_by_random rand (unanswered_questions db' v_player_id v_session_id)),
                   db'))"

section \<open>sp_record_player_answers and the trigger on player_answers\<close>

text \<open>
  \<open>fn_update_game_sessions\<close>, fired AFTER INSERT for the new row:
  \<^verbatim>\<open>UPDATE game_sessions SET questions_solved =
    (SELECT COUNT(*) FROM player_answers WHERE session_id = NEW.session_id)
  WHERE session_id = NEW.session_id\<close>.
\<close>

definition fn_update_game_sessions :: "database \<Rightarrow> player_answer \<Rightarrow> database" where
  "fn_update_game_sessions db new =
     db\<lparr>game_sessions :=
          map (\<lambda>gs. if gs_session_id gs = pa_session_id new
                    then gs\<lparr>gs_questions_solved :=
                              length (answers_of_session db (pa_session_id new))\<rparr>
                    else gs)
              (game_sessions db)\<rparr>"

text \<open>
  The INSERT into \<open>player_answers\<close>. PostgreSQL checks NOT NULL first (the three key
  columns and \<open>is_correct\<close>), then the CHECK on \<open>selected_answer\<close>, then the primary key
  (player_id, question_id, session_id); \<open>answered_at\<close> defaults to the clock. The
  foreign keys hold: every non-NULL value was just read from its table. The trigger
  runs in the same statement.
\<close>

definition new_player_answer ::
    "nat \<Rightarrow> nat \<Rightarrow> nat \<Rightarrow> char \<Rightarrow> bool \<Rightarrow> timestamp \<Rightarrow> player_answer" where
  "new_player_answer pid question_id sid selected_answer is_correct now =
     \<lparr>pa_player_id = pid, pa_question_id = question_id, pa_session_id = sid,
      pa_selected_answer = selected_answer, pa_is_correct = is_correct,
      pa_answered_at = now\<rparr>"

definition insert_player_answer ::
    "database \<Rightarrow> nat option \<Rightarrow> nat \<Rightarrow> nat option \<Rightarrow> char \<Rightarrow> bool option \<Rightarrow> timestamp
       \<Rightarrow> db_error + database" where
  "insert_player_answer db v_player_id p_question_id v_session_id p_selected_answer is_correct now =
     (case (v_player_id, v_session_id, is_correct) of
        (Some pid, Some sid, Some c) \<Rightarrow>
          if p_selected_answer \<notin> {CHR ''a'', CHR ''b'', CHR ''c'', CHR ''d''}
          then Inl CheckViolation
          else if \<exists>pa \<in> set (player_answers db).
                    pa_player_id pa = pid \<and> pa_question_id pa = p_question_id \<and>
                    pa_session_id pa = sid
          then Inl UniqueViolation
          else (let new = new_player_answer pid p_question_id sid p_selected_answer c now
                in Inr (fn_update_game_sessions
                          (db\<lparr>player_answers := player_answers db @ [new]\<rparr>) new))
      | _ \<Rightarrow> Inl NotNullViolation)"

definition select_correct_answer :: "database \<Rightarrow> nat \<Rightarrow> char option" where
  "select_correct_answer db p_question_id =
     map_option q_correct_answer (find (\<lambda>q. q_question_id q = p_question_id) (questions db))"

text \<open>
  \<open>(p_selected_answer = correct)\<close> is NULL when the question does not exist.
\<close>

definition sp_record_player_answers ::
    "database \<Rightarrow> string \<Rightarrow> nat \<Rightarrow> char \<Rightarrow> timestamp \<Rightarrow> db_error + database" where
  "sp_record_player_answers db p_username p_question_id p_selected_answer now =
     (let v_player_id = select_player_id db p_username;
          v_session_id = select_active_session db v_player_id;
          correct = select_correct_answer db p_question_id
      in insert_player_answer db v_player_id p_question_id v_session_id p_selected_answer
           (map_option (\<lambda>c. p_selected_answer = c) correct) now)"

text \<open>A sequence of record calls, each with its own clock reading; it stops at the first error.\<close>

fun record_all ::
    "database \<Rightarrow> string \<Rightarrow> (nat \<times> char \<times> timestamp) list \<Rightarrow> db_error + database" where
  "record_all db p_username [] = Inr db"
| "record_all db p_username ((q, a, now) # rest) =
     (case sp_record_player_answers db p_username q a now of
        Inl err \<Rightarrow> Inl err
      | Inr db' \<Rightarrow> record_all db' p_username rest)"

section \<open>sp_completing_session\<close>

text \<open>\<open>max\<close> and \<open>min\<close> of SQL are NULL over no rows.\<close>

fun sql_max :: "int list \<Rightarrow> int option" where
  "sql_max [] = None"
| "sql_max (x # xs) = Some (fold max xs x)"

fun sql_min :: "nat list \<Rightarrow> nat option" where
  "sql_min [] = None"
| "sql_min (x # xs) = Some (fold min xs x)"

definition max_answered_at :: "database \<Rightarrow> nat option \<Rightarrow> timestamp option" where
  "max_answered_at db v_session_id =
     (case v_session_id of
        None \<Rightarrow> None
      | Some sid \<Rightarrow> sql_max (map pa_answered_at (answers_of_session db sid)))"

text \<open>
  \<^verbatim>\<open>UPDATE game_sessions SET ... WHERE session_id = v_session_id\<close> touches no row when
  \<open>v_session_id\<close> is NULL.
\<close>

definition update_game_sessions ::
    "database \<Rightarrow> nat option \<Rightarrow> (game_session \<Rightarrow> game_session) \<Rightarrow> database" where
  "update_game_sessions db v_session_id f =
     (case v_session_id of
        None \<Rightarrow> db
      | Some sid \<Rightarrow>
          db\<lparr>game_sessions :=
               map (\<lambda>gs. if gs_session_id gs = sid then f gs else gs) (game_sessions db)\<rparr>)"

definition sp_completing_session :: "database \<Rightarrow> string \<Rightarrow> database" where
  "sp_completing_session db p_username =
     (let v_player_id = select_player_id db p_username;
          v_session_id = select_active_session db v_player_id;
          v_end_time = max_answered_at db v_session_id
      in update_game_sessions db v_session_id
           (\<lambda>gs. gs\<lparr>gs_is_completed := True, gs_is_active := False, gs_end_time := v_end_time\<rparr>))"

section \<open>sp_reset_player_answers\<close>

text \<open>
  \<^verbatim>\<open>DELETE FROM player_answers WHERE player_id = v_player_id AND session_id = v_session_id\<close>
  deletes nothing when either variable is NULL.
\<close>

definition delete_player_answers :: "database \<Rightarrow> nat option \<Rightarrow> nat option \<Rightarrow> database" where
  "delete_player_answers db v_player_id v_session_id =
     (case (v_player_id, v_session_id) of
        (Some pid, Some sid) \<Rightarrow>
          db\<lparr>player_answers :=
               filter (\<lambda>pa. \<not> (pa_player_id pa = pid \<and> pa_session_id pa = sid))
                      (player_answers db)\<rparr>
      | _ \<Rightarrow> db)"

definition sp_reset_player_answers :: "database \<Rightarrow> string \<Rightarrow> database" where
  "sp_reset_player_answers db p_username =
     (let v_player_id = select_player_id db p_username;
          v_session_id = select_active_session db v_player_id;
          db1 = delete_player_answers db v_player_id v_session_id
      in update_game_sessions db1 v_session_id (\<lambda>gs. gs\<lparr>gs_is_active := False\<rparr>))"

section \<open>sp_update_high_scores\<close>

text \<open>
  \<^verbatim>\<open>SELECT gs.session_id, gs.end_time INTO v_session_id, v_end_time FROM game_sessions gs
  WHERE gs.player_id = v_player_id AND gs.is_completed = TRUE
  ORDER BY gs.start_time DESC LIMIT 1\<close>: the completed session of the player that started
  last (the first such row of the scan among equal start times).
\<close>

definition select_latest_completed_session :: "database \<Rightarrow> nat option \<Rightarrow> game_session option" where
  "select_latest_completed_session db v_player_id =
     (case v_player_id of
        None \<Rightarrow> None
      | Some pid \<Rightarrow>
          (case sort_key (\<lambda>gs. - gs_start_time gs)
                  (filter (\<lambda>gs. gs_player_id gs = Some pid \<and> gs_is_completed gs)
                          (game_sessions db)) of
             [] \<Rightarrow> None
           | gs # _ \<Rightarrow> Some gs))"

text \<open>
  \<^verbatim>\<open>SELECT gs.end_time - gs.start_time INTO v_total_time FROM game_sessions gs
  WHERE gs.session_id = v_session_id\<close>: NULL without a session or without an end time.
\<close>

definition select_total_time :: "database \<Rightarrow> nat option \<Rightarrow> interval option" where
  "select_total_time db v_session_id =
     (case v_session_id of
        None \<Rightarrow> None
      | Some sid \<Rightarrow>
          (case find (\<lambda>gs. gs_session_id gs = sid) (game_sessions db) of
             None \<Rightarrow> None
           | Some gs \<Rightarrow> map_option (\<lambda>e. e - gs_start_time gs) (gs_end_time gs)))"

definition sp_update_high_scores :: "database \<Rightarrow> string \<Rightarrow> db_error + database" where
  "sp_update_high_scores db p_username =
     (let v_player_id = select_player_id db p_username;
          latest = select_latest_completed_session db v_player_id;
          v_session_id = map_option gs_session_id latest;
          v_end_time = (case latest of None \<Rightarrow> None | Some gs \<Rightarrow> gs_end_time gs);
          correct_answers = length (filter pa_is_correct (answers_of db v_player_id v_session_id));
          v_total_time = select_total_time db v_session_id
      in if correct_answers > 0 \<and> length (answers_of db v_player_id v_session_id) = 20
         then (case upsert_high_score (high_scores db) correct_answers v_player_id
                      v_total_time v_end_time of
                 Inl err \<Rightarrow> Inl err
               | Inr tbl \<Rightarrow> Inr (db\<lparr>high_scores := tbl\<rparr>))
         else Inr db)"

text \<open>
  The call \<open>sp_update_high_scores(p_username)\<close> on \<open>db\<close> is a submission \<open>s\<close> to the score
  bucket \<open>S\<close> when the lookups of lines 423-445 find these values: the player of \<open>s\<close>,
  a latest completed session that ended at the timestamp of \<open>s\<close> and lasted the time of
  \<open>s\<close>, and 20 answers of the player in that session, \<open>S\<close> of them correct.
\<close>

definition submits :: "database \<Rightarrow> string \<Rightarrow> nat \<Rightarrow> submission \<Rightarrow> bool" where
  "submits db p_username S s \<longleftrightarrow>
     (let v_player_id = select_player_id db p_username
      in case select_latest_completed_session db v_player_id of
           None \<Rightarrow> False
         | Some gs \<Rightarrow>
             v_player_id = Some (sub_player s) \<and>
             gs_end_time gs = Some (sub_at s) \<and>
             select_total_time db (Some (gs_session_id gs)) = Some (sub_time s) \<and>
             length (answers_of db v_player_id (Some (gs_session_id gs))) = 20 \<and>
             length (filter pa_is_correct
                       (answers_of db v_player_id (Some (gs_session_id gs)))) = S)"

text \<open>
  A sequence of calls of \<open>sp_update_high_scores\<close>, starting from the leaderboard \<open>tbl\<close>.
  The procedure is the only writer of \<open>high_scores\<close>; the other tables change between
  two calls as games are played, so every call comes with the database it finds. The
  sequence stops at the first error.
\<close>

fun update_high_scores_all ::
    "high_score list \<Rightarrow> (database \<times> string) list \<Rightarrow> db_error + high_score list" where
  "update_high_scores_all tbl [] = Inr tbl"
| "update_high_scores_all tbl ((db, p_username) # rest) =
     (case sp_update_high_scores (db\<lparr>high_scores := tbl\<rparr>) p_username of
        Inl err \<Rightarrow> Inl err
      | Inr db' \<Rightarrow> update_high_scores_all (high_scores db') rest)"

section \<open>fn_get_least_correctly_answered_question\<close>

text \<open>
  \<^verbatim>\<open>SELECT ps.question_id, COUNT(ps.player_id) FROM player_answers ps
  WHERE ps.is_correct = TRUE GROUP BY ps.question_id\<close>: one row per question id that
  occurs among the correct answers, with the number of those answers (\<open>player_id\<close> is
  never NULL, so COUNT counts every row of the group).
\<close>

definition correct_counts :: "database \<Rightarrow> (nat \<times> nat) list" where
  "correct_counts db =
     (let correct = filter pa_is_correct (player_answers db)
      in map (\<lambda>q. (q, length (filter (\<lambda>pa. pa_question_id pa = q) correct)))
             (remdups (map pa_question_id correct)))"

text \<open>\<^verbatim>\<open>HAVING COUNT(ps.player_id) = (SELECT MIN(m.correct_count) FROM (...) m)\<close>.\<close>

definition fn_get_least_correctly_answered_question :: "database \<Rightarrow> (nat \<times> nat) list" where
  "fn_get_least_correctly_answered_question db =
     filter (\<lambda>(question_id, correct_count).
               Some correct_count = sql_min (map snd (correct_counts db)))
            (correct_counts db)"

text \<open>The number of correct answers recorded for a question, over all sessions.\<close>

definition times_correct :: "database \<Rightarrow> nat \<Rightarrow> nat" where
  "times_correct db q =
     length (filter (\<lambda>pa. pa_is_correct pa \<and> pa_question_id pa = q) (player_answers db))"

section \<open>execute_pg_procedure\<close>

text \<open>
  The psycopg2 connection of postgresql_queries.py: the committed database and the
  database as the open transaction sees it. \<open>execute_pg_procedure\<close> runs the object
  named \<open>object_name\<close>, whose effect on the database is \<open>body\<close>: a stored procedure
  (\<open>sp_\<close>) is called and committed and returns None; a function (\<open>fn_\<close>) or a view
  (\<open>vw_\<close>) is selected from and its rows are returned, without a commit; any other name
  raises ValueError. A psycopg2.DatabaseError rolls the transaction back and is raised
  again. A rollback gives the tables of the last commit back; the sequence behind
  \<open>session_id\<close> is not transactional and keeps its value.
\<close>

record connection =
  committed :: database
  working :: database

datatype py_exception = DatabaseError db_error | ValueError

definition commit :: "connection \<Rightarrow> connection" where
  "commit conn = conn\<lparr>committed := working conn\<rparr>"

definition rollback :: "connection \<Rightarrow> connection" where
  "rollback conn =
     conn\<lparr>working := (committed conn)\<lparr>session_id_seq := session_id_seq (working conn)\<rparr>\<rparr>"

definition execute_pg_procedure ::
    "connection \<Rightarrow> string \<Rightarrow> (database \<Rightarrow> db_error + 'r \<times> database)
       \<Rightarrow> (py_exception + 'r option) \<times> connection" where
  "execute_pg_procedure conn object_name body =
     (if take 3 object_name = ''sp_'' then
        (case body (working conn) of
           Inl err \<Rightarrow> (Inl (DatabaseError err), rollback conn)
         | Inr (r, db') \<Rightarrow> (Inr None, commit (conn\<lparr>working := db'\<rparr>)))
      else if take 3 object_name = ''fn_'' \<or> take 3 object_name = ''vw_'' then
        (case body (working conn) of
           Inl err \<Rightarrow> (Inl (DatabaseError err), rollback conn)
         | Inr (r, db') \<Rightarrow> (Inr (Some r), conn\<lparr>working := db'\<rparr>))
      else (Inl ValueError, conn))"

text \<open>
  \<open>reset_game\<close> of game_logic.py: the call of \<open>sp_reset_player_answers\<close> through
  \<open>execute_pg_procedure\<close> (the log entry written to MongoDB afterwards is not part of
  the PostgreSQL state). The Python function catches and prints an exception of the
  call; here it is part of the result.
\<close>

definition reset_game :: "connection \<Rightarrow> string \<Rightarrow> (py_exception + unit option) \<times> connection" where
  "reset_game conn username =
     execute_pg_procedure conn ''sp_reset_player_answers''
       (\<lambda>db. Inr ((), sp_reset_player_answers db username))"

text \<open>
  The call that records an answer in \<open>play_game\<close> (game_logic.py, lines 161-166):
  \<open>sp_record_player_answers\<close> through \<open>execute_pg_procedure\<close>.
\<close>

definition call_sp_record_player_answers ::
    "connection \<Rightarrow> string \<Rightarrow> nat \<Rightarrow> char \<Rightarrow> timestamp
       \<Rightarrow> (py_exception + unit option) \<times> connection" where
  "call_sp_record_player_answers conn username question_id answer now =
     execute_pg_procedure conn ''sp_record_player_answers''
       (\<lambda>db. case sp_record_player_answers db username question_id answer now of
               Inl err \<Rightarrow> Inl err
             | Inr db' \<Rightarrow> Inr ((), db'))"

section \<open>Sequences of engine operations\<close>

text \<open>
  The operations of the game engine as game_logic.py calls them, each through
  \<open>execute_pg_procedure\<close> on the one connection of the application, with the clock
  reading and the random draws it uses. \<open>fn_get_unanswered_questions\<close> is a function:
  the session it creates stays in the open transaction until a later procedure call
  commits, and is lost when a later call fails and rolls back. The Python callers catch
  the exception of a failed call and go on.
\<close>

datatype engine_op =
  GetUnanswered string timestamp "nat \<Rightarrow> nat"
| RecordAnswer string nat char timestamp
| CompleteSession string
| ResetAnswers string
| UpdateHighScores string

fun step :: "connection \<Rightarrow> engine_op \<Rightarrow> connection" where
  "step conn (GetUnanswered u now rand) =
     snd (execute_pg_procedure conn ''fn_get_unanswered_questions''
            (\<lambda>db. fn_get_unanswered_questions db u now rand))"
| "step conn (RecordAnswer u q a now) = snd (call_sp_record_player_answers conn u q a now)"
| "step conn (CompleteSession u) =
     snd (execute_pg_procedure conn ''sp_completing_session''
            (\<lambda>db. Inr ((), sp_completing_session db u)))"
| "step conn (ResetAnswers u) = snd (reset_game conn u)"
| "step conn (UpdateHighScores u) =
     snd (execute_pg_procedure conn ''sp_update_high_scores''
            (\<lambda>db. case sp_update_high_scores db u of
                    Inl err \<Rightarrow> Inl err
                  | Inr db' \<Rightarrow> Inr ((), db')))"

definition run :: "connection \<Rightarrow> engine_op list \<Rightarrow> connection" where
  "run conn ops = foldl step conn ops"


text \<open>A connection opened on a database: no transaction is open.\<close>

definition connect_to_pg :: "database \<Rightarrow> connection" where
  "connect_to_pg db = \<lparr>committed = db, working = db\<rparr>"

text \<open>
  What the engine operations keep true of the database: the primary keys of
  \<open>questions\<close> and \<open>game_sessions\<close>, session ids below the sequence, an active session is
  not completed, a player has one active session at most, every answer belongs to a
  session of its player, and the counter of an active session is its number of answers.
\<close>

definition wf_db :: "database \<Rightarrow> bool" where
  "wf_db db \<longleftrightarrow>
     distinct (map q_question_id (questions db)) \<and>
     distinct (map gs_session_id (game_sessions db)) \<and>
     (\<forall>gs \<in> set (game_sessions db). gs_session_id gs \<le> session_id_seq db) \<and>
     (\<forall>gs \<in> set (game_sessions db). gs_is_active gs \<longrightarrow> \<not> gs_is_completed gs) \<and>
     (\<forall>gs \<in> set (game_sessions db). \<forall>gs' \<in> set (game_sessions db).
        gs_is_active gs \<and> gs_is_active gs' \<and> gs_player_id gs \<noteq> None \<and>
        gs_player_id gs = gs_player_id gs' \<longrightarrow> gs_session_id gs = gs_session_id gs') \<and>
     (\<forall>pa \<in> set (player_answers db). \<exists>gs \<in> set (game_sessions db).
        gs_session_id gs = pa_session_id pa \<and> gs_player_id gs = Some (pa_player_id pa)) \<and>
     (\<forall>gs \<in> set (game_sessions db). gs_is_active gs \<longrightarrow>
        gs_questions_solved gs = length (answers_of_session db (gs_session_id gs)))"


text \<open>The rows of \<open>game_sessions\<close> of a player with \<open>is_active = TRUE\<close>.\<close>

definition active_sessions_of :: "database \<Rightarrow> nat \<Rightarrow> game_session list" where
  "active_sessions_of db pid =
     filter (\<lambda>gs. gs_player_id gs = Some pid \<and> gs_is_active gs) (game_sessions db)"

section \<open>A small database for worked examples\<close>

text \<open>Two questions, one player, nothing played yet.\<close>

definition example_db :: database where
  "example_db = \<lparr>questions = [\<lparr>q_question_id = 1, q_correct_answer = CHR ''a''\<rparr>,
                                \<lparr>q_question_id = 2, q_correct_answer = CHR ''b''\<rparr>],
                  players = [\<lparr>pl_player_id = 1, pl_username = ''ann''\<rparr>],
                  game_sessions = [], player_answers = [], high_scores = [],
                  session_id_seq = 0\<rparr>"

text \<open>The same after ann has opened a session at time 5.\<close>

definition example_db_playing :: database where
  "example_db_playing =
     example_db\<lparr>game_sessions :=
                   [\<lparr>gs_session_id = 1, gs_player_id = Some 1, gs_start_time = 5,
                     gs_end_time = None, gs_questions_solved = 0,
                     gs_is_completed = False, gs_is_active = True\<rparr>],
                 session_id_seq := 1\<rparr>"

text \<open>And after she has answered question 1 with \<open>a\<close> at time 10.\<close>

definition example_db_answered :: database where
  "example_db_answered =
     example_db\<lparr>game_sessions :=
                   [\<lparr>gs_session_id = 1, gs_player_id = Some 1, gs_start_time = 5,
                     gs_end_time = None, gs_questions_solved = 1,
                     gs_is_completed = False, gs_is_active = True\<rparr>],
                 player_answers := [new_player_answer 1 1 1 (CHR ''a'') True 10],
                 session_id_seq := 1\<rparr>"

text \<open>
  A game that is reset and started again: ann opens a session at time 5, answers
  question 1, resets, opens a second session at time 20 and answers question 2 with \<open>c\<close>.
  \<open>example_db_replayed\<close> is the database this leads to.
\<close>

definition example_replay :: "engine_op list" where
  "example_replay =
     [GetUnanswered ''ann'' 5 (\<lambda>i. i), RecordAnswer ''ann'' 1 (CHR ''a'') 10,
      ResetAnswers ''ann'',
      GetUnanswered ''ann'' 20 (\<lambda>i. i), RecordAnswer ''ann'' 2 (CHR ''c'') 30]"

definition example_db_replayed :: database where
  "example_db_replayed =
     example_db\<lparr>game_sessions :=
                   [\<lparr>gs_session_id = 1, gs_player_id = Some 1, gs_start_time = 5,
                     gs_end_time = None, gs_questions_solved = 1,
                     gs_is_completed = False, gs_is_active = False\<rparr>,
                    \<lparr>gs_session_id = 2, gs_player_id = Some 1, gs_start_time = 20,
                     gs_end_time = None, gs_questions_solved = 1,
                     gs_is_completed = False, gs_is_active = True\<rparr>],
                 player_answers := [new_player_answer 1 2 2 (CHR ''c'') False 30],
                 session_id_seq := 2\<rparr>"

text \<open>
  A finished session with a single, correct answer: ann's session of
  \<open>example_db_answered\<close> completed at time 10.
\<close>

definition example_db_completed :: database where
  "example_db_completed =
     example_db_answered\<lparr>game_sessions :=
                   [\<lparr>gs_session_id = 1, gs_player_id = Some 1, gs_start_time = 5,
                     gs_end_time = Some 10, gs_questions_solved = 1,
                     gs_is_completed = True, gs_is_active = False\<rparr>]\<rparr>"

text \<open>
  Answers over four questions: question 1 answered correctly twice, questions 2 and 3
  once each, question 4 only wrongly.
\<close>

definition example_answers :: "player_answer list" where
  "example_answers =
     [new_player_answer 1 1 1 (CHR ''a'') True 10,
      new_player_answer 1 2 1 (CHR ''b'') True 11,
      new_player_answer 1 4 1 (CHR ''c'') False 12,
      new_player_answer 2 1 2 (CHR ''a'') True 13,
      new_player_answer 2 3 2 (CHR ''d'') True 14]"

text \<open>
  A database in which the player \<open>pid\<close> has finished one game, session \<open>sid\<close> from
  \<open>started\<close> to \<open>ended\<close>: questions 1 to 20 answered with \<open>a\<close>, the first \<open>S\<close> of them
  correctly.
\<close>

definition example_finished_game ::
    "nat \<Rightarrow> string \<Rightarrow> nat \<Rightarrow> nat \<Rightarrow> timestamp \<Rightarrow> timestamp \<Rightarrow> database" where
  "example_finished_game pid name sid S started ended =
     \<lparr>questions = map (\<lambda>q. \<lparr>q_question_id = q, q_correct_answer = (if q \<le> S then CHR ''a'' else CHR ''b'')\<rparr>)
                       [1, 2, 3, 4, 5, 6, 7, 8, 9, 10, 11, 12, 13, 14, 15, 16, 17, 18, 19, 20],
      players = [\<lparr>pl_player_id = pid, pl_username = name\<rparr>],
      game_sessions = [\<lparr>gs_session_id = sid, gs_player_id = Some pid, gs_start_time = started,
                        gs_end_time = Some ended, gs_questions_solved = 20,
                        gs_is_completed = True, gs_is_active = False\<rparr>],
      player_answers = map (\<lambda>q. new_player_answer pid q sid (CHR ''a'') (q \<le> S) ended)
                         [1, 2, 3, 4, 5, 6, 7, 8, 9, 10, 11, 12, 13, 14, 15, 16, 17, 18, 19, 20],
      high_scores = [],
      session_id_seq = sid\<rparr>"

text \<open>
  A database with the questions \<open>qs\<close> in which ann plays her first session and has
  answered the questions \<open>done\<close>, question \<open>q\<close> at time \<open>100 + q\<close>.
\<close>

definition example_session_with :: "nat list \<Rightarrow> nat list \<Rightarrow> database" where
  "example_session_with qs done =
     \<lparr>questions = map (\<lambda>q. \<lparr>q_question_id = q, q_correct_answer = CHR ''a''\<rparr>) qs,
      players = [\<lparr>pl_player_id = 1, pl_username = ''ann''\<rparr>],
      game_sessions = [\<lparr>gs_session_id = 1, gs_player_id = Some 1, gs_start_time = 5,
                        gs_end_time = None, gs_questions_solved = length done,
                        gs_is_completed = False, gs_is_active = True\<rparr>],
      player_answers = map (\<lambda>q. new_player_answer 1 q 1 (CHR ''a'') True (100 + int q)) done,
      high_scores = [],
      session_id_seq = 1\<rparr>"
section \<open>The leaderboard slot keeps the fastest time\<close>

lemma update_high_score_rows_Some:
  "update_high_score_rows c p t (Some e) tbl =
     Inr (map (\<lambda>hs. if hs_score_id hs = c \<and> hs_total_time hs > t
                     then hs\<lparr>hs_player_id := p, hs_total_time := t, hs_achieved_at := e\<rparr>
                     else hs) tbl)"
  by (induction tbl) (simp_all add: update_high_score_row_def)

lemma slot_empty_iff: "slot tbl S = [] \<longleftrightarrow> (\<forall>hs \<in> set tbl. hs_score_id hs \<noteq> S)"
  by (auto simp: slot_def filter_empty_conv)

lemma submit_fresh:
  assumes "1 \<le> S" "S \<le> 20" "slot tbl S = []"
  shows "submit tbl S s = Inr (tbl @ [slot_row S s])"
  using assms by (auto simp: submit_def upsert_high_score_def slot_empty_iff slot_row_def)

lemma slot_nonempty_ex:
  assumes "slot tbl S = h # hs"
  shows "\<exists>x \<in> set tbl. hs_score_id x = S"
proof -
  have "h \<in> set (slot tbl S)" using assms by simp
  then show ?thesis by (auto simp: slot_def)
qed

lemma slot_map_same_score:
  assumes "\<And>x. hs_score_id (f x) = hs_score_id x"
  shows "slot (map f tbl) k = map f (slot tbl k)"
  using assms by (induction tbl) (auto simp: slot_def)

lemma submit_existing:
  assumes "slot tbl S = [slot_row S b]"
  shows "\<exists>tbl'. submit tbl S s = Inr tbl' \<and> slot tbl' S = [slot_row S (better b s)]
           \<and> (\<forall>k. k \<noteq> S \<longrightarrow> slot tbl' k = slot tbl k)
           \<and> (sub_time b \<le> sub_time s \<longrightarrow> tbl' = tbl)"
proof -
  let ?f = "\<lambda>hs. if hs_score_id hs = S \<and> hs_total_time hs > sub_time s
                  then hs\<lparr>hs_player_id := Some (sub_player s), hs_total_time := sub_time s,
                          hs_achieved_at := sub_at s\<rparr>
                  else hs"
  have ex: "\<exists>x \<in> set tbl. hs_score_id x = S" using assms slot_nonempty_ex by blast
  have eq: "submit tbl S s = Inr (map ?f tbl)"
    using ex by (simp add: submit_def upsert_high_score_def update_high_score_rows_Some)
  have s1: "slot (map ?f tbl) k = map ?f (slot tbl k)" for k
    by (rule slot_map_same_score) simp
  have a: "slot (map ?f tbl) S = [slot_row S (better b s)]"
    unfolding s1 assms by (auto simp: slot_row_def better_def)
  have b: "slot (map ?f tbl) k = slot tbl k" if "k \<noteq> S" for k
  proof -
    have "map ?f (slot tbl k) = slot tbl k"
      by (rule map_idI) (use that in \<open>simp add: slot_def\<close>)
    then show ?thesis unfolding s1 .
  qed
  have c: "map ?f tbl = tbl" if "sub_time b \<le> sub_time s"
  proof (rule map_idI)
    fix x assume "x \<in> set tbl"
    show "?f x = x"
    proof (cases "hs_score_id x = S")
      case True
      then have "x \<in> set (slot tbl S)" using \<open>x \<in> set tbl\<close> by (simp add: slot_def)
      then have "x = slot_row S b" using assms by simp
      then show ?thesis using that by (simp add: slot_row_def)
    qed simp
  qed
  show ?thesis using eq a b c by blast
qed

lemma submit_all_existing:
  assumes "slot tbl S = [slot_row S b]"
  shows "\<exists>tbl'. submit_all tbl S ss = Inr tbl' \<and> slot tbl' S = [slot_row S (foldl better b ss)]
           \<and> (\<forall>k. k \<noteq> S \<longrightarrow> slot tbl' k = slot tbl k)"
  using assms
proof (induction ss arbitrary: tbl b)
  case Nil
  then show ?case by simp
next
  case (Cons s ss)
  from submit_existing[OF Cons.prems, of s] obtain t1 where
    t1: "submit tbl S s = Inr t1" "slot t1 S = [slot_row S (better b s)]"
        "\<forall>k. k \<noteq> S \<longrightarrow> slot t1 k = slot tbl k" by blast
  from Cons.IH[OF t1(2)] obtain t2 where
    t2: "submit_all t1 S ss = Inr t2" "slot t2 S = [slot_row S (foldl better (better b s) ss)]"
        "\<forall>k. k \<noteq> S \<longrightarrow> slot t2 k = slot t1 k" by blast
  show ?case using t1 t2 by simp
qed

lemma foldl_better_split:
  "\<exists>pre post. b # ss = pre @ foldl better b ss # post
      \<and> (\<forall>x \<in> set pre. sub_time (foldl better b ss) < sub_time x)
      \<and> (\<forall>x \<in> set post. sub_time (foldl better b ss) \<le> sub_time x)"
proof (induction ss rule: rev_induct)
  case Nil
  have "[b] = [] @ b # []" by simp
  then show ?case by fastforce
next
  case (snoc s ss)
  let ?w = "foldl better b ss"
  from snoc obtain pre post where pp: "b # ss = pre @ ?w # post"
      "\<forall>x \<in> set pre. sub_time ?w < sub_time x"
      "\<forall>x \<in> set post. sub_time ?w \<le> sub_time x" by blast
  show ?case
  proof (cases "sub_time s < sub_time ?w")
    case True
    then have w: "foldl better b (ss @ [s]) = s" by (simp add: better_def)
    have all: "\<forall>x \<in> set (b # ss). sub_time s < sub_time x"
      unfolding pp(1) using pp(2,3) True by fastforce
    have "b # ss @ [s] = (b # ss) @ s # []" by simp
    with all show ?thesis unfolding w
      by (intro exI[of _ "b # ss"] exI[of _ "[]"]) simp
  next
    case False
    then have w: "foldl better b (ss @ [s]) = ?w" by (simp add: better_def)
    have "b # ss @ [s] = pre @ ?w # (post @ [s])" using pp(1) by simp
    moreover have "\<forall>x \<in> set (post @ [s]). sub_time ?w \<le> sub_time x"
      using pp(3) False by auto
    ultimately show ?thesis unfolding w using pp(2)
      by (intro exI[of _ pre] exI[of _ "post @ [s]"]) simp
  qed
qed

lemma first_fastest_is_Min:
  assumes "xs = pre @ w # post" "\<forall>x \<in> set pre. sub_time w < sub_time x"
      "\<forall>x \<in> set post. sub_time w \<le> sub_time x"
  shows "sub_time w = Min (sub_time ` set xs)"
proof -
  have "\<forall>x \<in> set xs. sub_time w \<le> sub_time x" using assms by fastforce
  moreover have "w \<in> set xs" using assms by simp
  ultimately show ?thesis
    by (intro Min_eqI[symmetric]) auto
qed

text \<open>
  The slot of an empty bucket after a non-empty sequence of submissions, in terms of the
  insert-or-update alone.
\<close>

lemma submit_all_first_fastest:
  assumes "1 \<le> S" "S \<le> 20" "slot tbl S = []" "subs \<noteq> []"
  shows "\<exists>tbl' pre w post.
           submit_all tbl S subs = Inr tbl' \<and> subs = pre @ w # post \<and>
           slot tbl' S = [slot_row S w] \<and>
           sub_time w = Min (sub_time ` set subs) \<and>
           (\<forall>x \<in> set pre. sub_time w < sub_time x) \<and>
           (\<forall>k. k \<noteq> S \<longrightarrow> slot tbl' k = slot tbl k) \<and>
           (\<forall>s. sub_time w \<le> sub_time s \<longrightarrow> submit tbl' S s = Inr tbl') \<and>
           (\<forall>s. sub_time s < sub_time w \<longrightarrow>
                 (\<exists>tbl''. submit tbl' S s = Inr tbl'' \<and> slot tbl'' S = [slot_row S s]))"
proof -
  from assms(4) obtain b ss where subs: "subs = b # ss" by (cases subs) auto
  let ?t1 = "tbl @ [slot_row S b]"
  have first: "submit tbl S b = Inr ?t1" using assms(1-3) by (rule submit_fresh)
  have s1: "slot ?t1 S = [slot_row S b]"
    using assms(3) by (simp add: slot_def slot_row_def)
  have o1: "slot ?t1 k = slot tbl k" if "k \<noteq> S" for k
    using that by (simp add: slot_def slot_row_def)
  let ?w = "foldl better b ss"
  from submit_all_existing[OF s1, of ss] obtain tbl' where
    t: "submit_all ?t1 S ss = Inr tbl'" "slot tbl' S = [slot_row S ?w]"
       "\<forall>k. k \<noteq> S \<longrightarrow> slot tbl' k = slot ?t1 k" by blast
  from foldl_better_split[of b ss] obtain pre post where
    pp: "b # ss = pre @ ?w # post" "\<forall>x \<in> set pre. sub_time ?w < sub_time x"
        "\<forall>x \<in> set post. sub_time ?w \<le> sub_time x" by blast
  have run: "submit_all tbl S subs = Inr tbl'" using first t(1) subs by simp
  have mn: "sub_time ?w = Min (sub_time ` set subs)"
    using first_fastest_is_Min[OF _ pp(2,3)] pp(1) subs by simp
  have others: "\<forall>k. k \<noteq> S \<longrightarrow> slot tbl' k = slot tbl k" using t(3) o1 by simp
  have later_slow: "submit tbl' S s = Inr tbl'" if "sub_time ?w \<le> sub_time s" for s
  proof -
    from submit_existing[OF t(2), of s] obtain t2 where
      "submit tbl' S s = Inr t2" "sub_time ?w \<le> sub_time s \<longrightarrow> t2 = tbl'" by blast
    with that show ?thesis by simp
  qed
  have later_fast: "\<exists>tbl''. submit tbl' S s = Inr tbl'' \<and> slot tbl'' S = [slot_row S s]"
    if "sub_time s < sub_time ?w" for s
  proof -
    from submit_existing[OF t(2), of s] obtain t2 where
      t2: "submit tbl' S s = Inr t2" "slot t2 S = [slot_row S (better ?w s)]" by blast
    have "better ?w s = s" using that by (simp add: better_def)
    with t2 show ?thesis by simp
  qed
  have split: "subs = pre @ ?w # post" using pp(1) subs by simp
  have later_slow': "\<forall>s. sub_time ?w \<le> sub_time s \<longrightarrow> submit tbl' S s = Inr tbl'"
    using later_slow by blast
  have later_fast': "\<forall>s. sub_time s < sub_time ?w \<longrightarrow>
      (\<exists>tbl''. submit tbl' S s = Inr tbl'' \<and> slot tbl'' S = [slot_row S s])"
    using later_fast by blast
  show ?thesis
    by (intro exI[of _ tbl'] exI[of _ pre] exI[of _ ?w] exI[of _ post] conjI
          run split t(2) mn pp(2) others later_slow' later_fast')
qed


text \<open>
  The procedure itself: its lookups do not read \<open>high_scores\<close>, and a call that is a
  submission \<open>s\<close> to the bucket \<open>S\<close> passes the guard and runs the insert-or-update with
  the values of \<open>s\<close>.
\<close>

lemma lookups_ignore_high_scores [simp]:
  "select_player_id (db\<lparr>high_scores := t\<rparr>) u = select_player_id db u"
  "select_latest_completed_session (db\<lparr>high_scores := t\<rparr>) v = select_latest_completed_session db v"
  "answers_of (db\<lparr>high_scores := t\<rparr>) v w = answers_of db v w"
  "select_total_time (db\<lparr>high_scores := t\<rparr>) w = select_total_time db w"
  by (simp_all add: select_player_id_def select_latest_completed_session_def answers_of_def
        select_total_time_def split: option.splits)

lemma submits_D:
  assumes "submits db u S s"
  obtains gs where
    "select_player_id db u = Some (sub_player s)"
    "select_latest_completed_session db (Some (sub_player s)) = Some gs"
    "gs_end_time gs = Some (sub_at s)"
    "select_total_time db (Some (gs_session_id gs)) = Some (sub_time s)"
    "length (answers_of db (Some (sub_player s)) (Some (gs_session_id gs))) = 20"
    "length (filter pa_is_correct
               (answers_of db (Some (sub_player s)) (Some (gs_session_id gs)))) = S"
proof -
  from assms obtain gs where
    l: "select_latest_completed_session db (select_player_id db u) = Some gs"
    by (cases "select_latest_completed_session db (select_player_id db u)")
       (simp_all add: submits_def Let_def)
  from assms l have p: "select_player_id db u = Some (sub_player s)"
    by (simp add: submits_def Let_def)
  from assms l p have rest:
    "gs_end_time gs = Some (sub_at s)"
    "select_total_time db (Some (gs_session_id gs)) = Some (sub_time s)"
    "length (answers_of db (Some (sub_player s)) (Some (gs_session_id gs))) = 20"
    "length (filter pa_is_correct
               (answers_of db (Some (sub_player s)) (Some (gs_session_id gs)))) = S"
    by (simp_all add: submits_def Let_def)
  from l p have l': "select_latest_completed_session db (Some (sub_player s)) = Some gs" by simp
  from p l' rest show ?thesis by (rule that)
qed

lemma submits_score_le:
  assumes "submits db u S s"
  shows "S \<le> 20"
proof -
  from assms obtain gs where
    "select_player_id db u = Some (sub_player s)"
    "select_latest_completed_session db (Some (sub_player s)) = Some gs"
    "gs_end_time gs = Some (sub_at s)"
    "select_total_time db (Some (gs_session_id gs)) = Some (sub_time s)" and
    n: "length (answers_of db (Some (sub_player s)) (Some (gs_session_id gs))) = 20" and
    c: "length (filter pa_is_correct
               (answers_of db (Some (sub_player s)) (Some (gs_session_id gs)))) = S"
    by (rule submits_D)
  have "length (filter pa_is_correct
               (answers_of db (Some (sub_player s)) (Some (gs_session_id gs)))) \<le> 20"
    using length_filter_le[of pa_is_correct
            "answers_of db (Some (sub_player s)) (Some (gs_session_id gs))"] n by simp
  with c show ?thesis by simp
qed

lemma sp_update_high_scores_submits:
  assumes "submits db u S s" "1 \<le> S"
  shows "sp_update_high_scores (db\<lparr>high_scores := tbl\<rparr>) u =
           (case submit tbl S s of
              Inl err \<Rightarrow> Inl err
            | Inr tbl' \<Rightarrow> Inr (db\<lparr>high_scores := tbl'\<rparr>))"
proof -
  from assms(1) obtain gs where
    p: "select_player_id db u = Some (sub_player s)" and
    l: "select_latest_completed_session db (Some (sub_player s)) = Some gs" and
    e: "gs_end_time gs = Some (sub_at s)" and
    t: "select_total_time db (Some (gs_session_id gs)) = Some (sub_time s)" and
    n: "length (answers_of db (Some (sub_player s)) (Some (gs_session_id gs))) = 20" and
    c: "length (filter pa_is_correct
               (answers_of db (Some (sub_player s)) (Some (gs_session_id gs)))) = S"
    by (rule submits_D)
  have ne: "filter pa_is_correct
              (answers_of db (Some (sub_player s)) (Some (gs_session_id gs))) \<noteq> []"
    using c assms(2) by auto
  show ?thesis
    by (simp add: sp_update_high_scores_def submit_def Let_def p l e t n c ne split: sum.splits)
qed

lemma update_high_scores_all_submit_all:
  assumes "list_all2 (\<lambda>(db, u) s. submits db u S s) calls subs" "1 \<le> S"
  shows "update_high_scores_all tbl calls = submit_all tbl S subs"
  using assms(1)
proof (induction calls subs arbitrary: tbl rule: list_all2_induct)
  case Nil
  then show ?case by simp
next
  case (Cons call calls s subs)
  obtain db u where call: "call = (db, u)" by (cases call)
  from Cons.hyps(1) call have "submits db u S s" by simp
  from sp_update_high_scores_submits[OF this assms(2), of tbl] show ?case
    by (cases "submit tbl S s") (simp_all add: call Cons.IH)
qed

text \<open>
  C1. Take a score bucket \<open>S\<close> \<ge> 1 whose slot is empty and a non-empty sequence of calls
  of \<open>sp_update_high_scores\<close>, each of which is a submission to \<open>S\<close> (a finished game of
  20 answers, \<open>S\<close> of them correct; so \<open>S\<close> \<le> 20). No call fails, and afterwards the slot
  holds exactly one row: player, time and timestamp of the first submission \<open>w\<close> whose
  time is the minimum of all submitted times (every earlier submission is strictly
  slower). The other buckets are as before. A later call that submits an equal or slower
  time returns without error and leaves the whole database as it is; one that submits a
  strictly faster time replaces the slot.
\<close>

theorem leaderboard_slot_holds_first_fastest:
  assumes "1 \<le> S" "slot tbl S = []" "calls \<noteq> []"
      and "list_all2 (\<lambda>(db, u) s. submits db u S s) calls subs"
  shows "\<exists>tbl' pre w post.
           update_high_scores_all tbl calls = Inr tbl' \<and> subs = pre @ w # post \<and>
           slot tbl' S = [slot_row S w] \<and>
           sub_time w = Min (sub_time ` set subs) \<and>
           (\<forall>x \<in> set pre. sub_time w < sub_time x) \<and>
           (\<forall>k. k \<noteq> S \<longrightarrow> slot tbl' k = slot tbl k) \<and>
           (\<forall>db u s. submits db u S s \<and> sub_time w \<le> sub_time s \<longrightarrow>
                sp_update_high_scores (db\<lparr>high_scores := tbl'\<rparr>) u =
                  Inr (db\<lparr>high_scores := tbl'\<rparr>)) \<and>
           (\<forall>db u s. submits db u S s \<and> sub_time s < sub_time w \<longrightarrow>
                (\<exists>tbl''. sp_update_high_scores (db\<lparr>high_scores := tbl'\<rparr>) u =
                          Inr (db\<lparr>high_scores := tbl''\<rparr>) \<and>
                        slot tbl'' S = [slot_row S s]))"
proof -
  from assms(3,4) obtain call calls' s0 subs' where
    "calls = call # calls'" "subs = s0 # subs'" "(\<lambda>(db, u) s. submits db u S s) call s0"
    by (cases calls; cases subs) auto
  then have ne: "subs \<noteq> []" and le: "S \<le> 20"
    using submits_score_le[of "fst call" "snd call" S s0] by (auto simp: case_prod_beta)
  from submit_all_first_fastest[OF assms(1) le assms(2) ne] obtain tbl' pre w post where
    run: "submit_all tbl S subs = Inr tbl'" and
    split: "subs = pre @ w # post" and
    sl: "slot tbl' S = [slot_row S w]" and
    mn: "sub_time w = Min (sub_time ` set subs)" and
    pre: "\<forall>x \<in> set pre. sub_time w < sub_time x" and
    others: "\<forall>k. k \<noteq> S \<longrightarrow> slot tbl' k = slot tbl k" and
    slow: "\<forall>s. sub_time w \<le> sub_time s \<longrightarrow> submit tbl' S s = Inr tbl'" and
    fast: "\<forall>s. sub_time s < sub_time w \<longrightarrow>
                 (\<exists>tbl''. submit tbl' S s = Inr tbl'' \<and> slot tbl'' S = [slot_row S s])"
    by blast
  have run': "update_high_scores_all tbl calls = Inr tbl'"
    using update_high_scores_all_submit_all[OF assms(4,1), of tbl] run by simp
  have slow': "\<forall>db u s. submits db u S s \<and> sub_time w \<le> sub_time s \<longrightarrow>
                sp_update_high_scores (db\<lparr>high_scores := tbl'\<rparr>) u =
                  Inr (db\<lparr>high_scores := tbl'\<rparr>)"
  proof (intro allI impI)
    fix db u s assume h: "submits db u S s \<and> sub_time w \<le> sub_time s"
    then have "submit tbl' S s = Inr tbl'" using slow by blast
    then show "sp_update_high_scores (db\<lparr>high_scores := tbl'\<rparr>) u =
                  Inr (db\<lparr>high_scores := tbl'\<rparr>)"
      using sp_update_high_scores_submits[OF _ assms(1), of db u s tbl'] h by simp
  qed
  have fast': "\<forall>db u s. submits db u S s \<and> sub_time s < sub_time w \<longrightarrow>
                (\<exists>tbl''. sp_update_high_scores (db\<lparr>high_scores := tbl'\<rparr>) u =
                          Inr (db\<lparr>high_scores := tbl''\<rparr>) \<and>
                        slot tbl'' S = [slot_row S s])"
  proof (intro allI impI)
    fix db u s assume h: "submits db u S s \<and> sub_time s < sub_time w"
    then obtain tbl'' where t: "submit tbl' S s = Inr tbl''" "slot tbl'' S = [slot_row S s]"
      using fast by blast
    have "sp_update_high_scores (db\<lparr>high_scores := tbl'\<rparr>) u = Inr (db\<lparr>high_scores := tbl''\<rparr>)"
      using sp_update_high_scores_submits[OF _ assms(1), of db u s tbl'] h t(1) by simp
    with t(2) show "\<exists>tbl''. sp_update_high_scores (db\<lparr>high_scores := tbl'\<rparr>) u =
                          Inr (db\<lparr>high_scores := tbl''\<rparr>) \<and>
                        slot tbl'' S = [slot_row S s]"
      by blast
  qed
  show ?thesis
    by (intro exI[of _ tbl'] exI[of _ pre] exI[of _ w] exI[of _ post] conjI
          run' split sl mn pre others slow' fast')
qed

lemma example_games_submit:
  "list_all2 (\<lambda>(db, u) s. submits db u 5 s)
     [(example_finished_game 1 ''ann'' 1 5 810 1000, ''ann''),
      (example_finished_game 2 ''bob'' 2 5 1830 2000, ''bob''),
      (example_finished_game 3 ''cat'' 3 5 2830 3000, ''cat'')]
     [(1, 190, 1000), (2, 170, 2000), (3, 170, 3000)]"
  by code_simp

theorem leaderboard_slot_holds_first_fastest_witness:
  "\<exists>tbl' pre w post.
     update_high_scores_all []
       [(example_finished_game 1 ''ann'' 1 5 810 1000, ''ann''),
        (example_finished_game 2 ''bob'' 2 5 1830 2000, ''bob''),
        (example_finished_game 3 ''cat'' 3 5 2830 3000, ''cat'')] = Inr tbl' \<and>
     [(1, 190, 1000), (2, 170, 2000), (3, 170, 3000)] = pre @ w # post \<and>
     slot tbl' 5 = [slot_row 5 w] \<and>
     sub_time w = Min (sub_time ` set [(1, 190, 1000), (2, 170, 2000), (3, 170, 3000)]) \<and>
     (\<forall>x \<in> set pre. sub_time w < sub_time x) \<and>
     (\<forall>k. k \<noteq> 5 \<longrightarrow> slot tbl' k = slot [] k)"
proof -
  have one: "(1::nat) \<le> 5" by simp
  have empty: "slot [] 5 = []" by (simp add: slot_def)
  have ne: "[(example_finished_game 1 ''ann'' 1 5 810 1000, ''ann''),
        (example_finished_game 2 ''bob'' 2 5 1830 2000, ''bob''),
        (example_finished_game 3 ''cat'' 3 5 2830 3000, ''cat'')] \<noteq> []" by simp
  from leaderboard_slot_holds_first_fastest[OF one empty ne example_games_submit]
  show ?thesis by blast
qed

lemma leaderboard_example:
  "update_high_scores_all []
     [(example_finished_game 1 ''ann'' 1 5 810 1000, ''ann''),
      (example_finished_game 2 ''bob'' 2 5 1830 2000, ''bob''),
      (example_finished_game 3 ''cat'' 3 5 2830 3000, ''cat'')] = Inr [slot_row 5 (2, 170, 2000)]"
  by code_simp

section \<open>Recording an answer\<close>

lemma find_map_same_test:
  assumes "\<And>x. P (f x) = P x"
  shows "find P (map f xs) = map_option f (find P xs)"
  using assms by (induction xs) simp_all

lemma find_None_iff_no_match: "find P xs = None \<longleftrightarrow> (\<forall>x \<in> set xs. \<not> P x)"
  by (induction xs) simp_all

lemma select_active_session_None:
  assumes "\<forall>gs \<in> set (game_sessions db). \<not> is_open_session_of pid gs"
  shows "select_active_session db (Some pid) = None"
  using assms by (simp add: select_active_session_def find_None_iff_no_match)

lemma insert_without_session:
  "insert_player_answer db v_player_id q None a c now = Inl NotNullViolation"
  by (simp add: insert_player_answer_def split: option.splits)

lemma execute_sp_error:
  assumes "body (working conn) = Inl err"
  shows "execute_pg_procedure conn (''sp_'' @ name) body = (Inl (DatabaseError err), rollback conn)"
  using assms by (simp add: execute_pg_procedure_def)

lemma execute_sp_ok:
  assumes "body (working conn) = Inr (r, db')"
  shows "execute_pg_procedure conn (''sp_'' @ name) body =
           (Inr None, \<lparr>committed = db', working = db'\<rparr>)"
  using assms by (simp add: execute_pg_procedure_def commit_def)

text \<open>
  C7. When the player has no session with \<open>is_completed = FALSE\<close> and
  \<open>is_active = TRUE\<close>, \<open>sp_record_player_answers\<close> raises: \<open>v_session_id\<close> is NULL and the
  INSERT violates NOT NULL on \<open>player_answers.session_id\<close>. No row is inserted: the
  procedure ends with the error, the connection is rolled back to the tables of its last
  commit, and the error is raised to the caller.
\<close>

theorem record_without_active_session_fails:
  assumes "select_player_id db username = Some pid"
      and "\<forall>gs \<in> set (game_sessions db).
             \<not> (gs_player_id gs = Some pid \<and> \<not> gs_is_completed gs \<and> gs_is_active gs)"
  shows "sp_record_player_answers db username q a now = Inl NotNullViolation \<and>
         (working conn = db \<longrightarrow>
            step conn (RecordAnswer username q a now) = rollback conn) \<and>
         (working conn = db \<longrightarrow>
            call_sp_record_player_answers conn username q a now =
              (Inl (DatabaseError NotNullViolation), rollback conn)) \<and>
         player_answers (working (rollback conn)) = player_answers (committed conn)"
proof -
  have none: "select_active_session db (Some pid) = None"
    using assms(2) by (intro select_active_session_None) (simp add: is_open_session_of_def)
  have err: "sp_record_player_answers db username q a now = Inl NotNullViolation"
    by (simp add: sp_record_player_answers_def assms(1) none insert_without_session)
  have call: "call_sp_record_player_answers conn username q a now =
                (Inl (DatabaseError NotNullViolation), rollback conn)" if "working conn = db"
    using that err by (simp add: call_sp_record_player_answers_def execute_pg_procedure_def)
  have tables: "player_answers (working (rollback conn)) = player_answers (committed conn)"
    by (simp add: rollback_def)
  show ?thesis using err call tables by simp
qed

theorem record_without_active_session_fails_witness:
  "sp_record_player_answers example_db ''ann'' 1 (CHR ''a'') 10 = Inl NotNullViolation \<and>
   step \<lparr>committed = example_db, working = example_db\<rparr> (RecordAnswer ''ann'' 1 (CHR ''a'') 10) =
     rollback \<lparr>committed = example_db, working = example_db\<rparr> \<and>
   call_sp_record_player_answers \<lparr>committed = example_db, working = example_db\<rparr> ''ann'' 1 (CHR ''a'') 10 =
     (Inl (DatabaseError NotNullViolation),
      rollback \<lparr>committed = example_db, working = example_db\<rparr>) \<and>
   player_answers (working (rollback \<lparr>committed = example_db, working = example_db\<rparr>)) = []"
  using record_without_active_session_fails
          [of example_db "''ann''" 1 1 "CHR ''a''" 10 "\<lparr>committed = example_db, working = example_db\<rparr>"]
  by (simp add: example_db_def select_player_id_def)

text \<open>What a successful call of \<open>sp_record_player_answers\<close> has found and done.\<close>

lemma sp_record_Inr_D:
  assumes "sp_record_player_answers db username q a now = Inr db1"
  obtains pid sid k where
    "select_player_id db username = Some pid"
    "select_active_session db (Some pid) = Some sid"
    "select_correct_answer db q = Some k"
    "a \<in> {CHR ''a'', CHR ''b'', CHR ''c'', CHR ''d''}"
    "\<forall>pa \<in> set (player_answers db).
       \<not> (pa_player_id pa = pid \<and> pa_question_id pa = q \<and> pa_session_id pa = sid)"
    "db1 = fn_update_game_sessions
             (db\<lparr>player_answers := player_answers db @ [new_player_answer pid q sid a (a = k) now]\<rparr>)
             (new_player_answer pid q sid a (a = k) now)"
proof -
  from assms obtain pid where pid: "select_player_id db username = Some pid"
    by (cases "select_player_id db username")
       (simp_all add: sp_record_player_answers_def insert_player_answer_def)
  from assms pid obtain sid where sid: "select_active_session db (Some pid) = Some sid"
    by (cases "select_active_session db (Some pid)")
       (simp_all add: sp_record_player_answers_def insert_player_answer_def)
  from assms pid sid obtain k where k: "select_correct_answer db q = Some k"
    by (cases "select_correct_answer db q")
       (simp_all add: sp_record_player_answers_def insert_player_answer_def)
  have ins: "insert_player_answer db (Some pid) q (Some sid) a (Some (a = k)) now = Inr db1"
    using assms pid sid k by (simp add: sp_record_player_answers_def)
  have letter: "a \<in> {CHR ''a'', CHR ''b'', CHR ''c'', CHR ''d''}"
    using ins by (auto simp: insert_player_answer_def split: if_splits)
  have fresh: "\<forall>pa \<in> set (player_answers db).
       \<not> (pa_player_id pa = pid \<and> pa_question_id pa = q \<and> pa_session_id pa = sid)"
    using ins letter by (simp add: insert_player_answer_def split: if_splits)
  have "db1 = fn_update_game_sessions
             (db\<lparr>player_answers := player_answers db @ [new_player_answer pid q sid a (a = k) now]\<rparr>)
             (new_player_answer pid q sid a (a = k) now)"
    using ins letter fresh by (simp add: insert_player_answer_def Let_def split: if_splits)
  with pid sid k letter fresh show ?thesis by (rule that)
qed

lemma fn_update_game_sessions_frame [simp]:
  "player_answers (fn_update_game_sessions db new) = player_answers db"
  "players (fn_update_game_sessions db new) = players db"
  "questions (fn_update_game_sessions db new) = questions db"
  "high_scores (fn_update_game_sessions db new) = high_scores db"
  "session_id_seq (fn_update_game_sessions db new) = session_id_seq db"
  by (simp_all add: fn_update_game_sessions_def)

lemma select_player_id_cong:
  "players db' = players db \<Longrightarrow> select_player_id db' u = select_player_id db u"
  by (simp add: select_player_id_def)

lemma select_correct_answer_cong:
  "questions db' = questions db \<Longrightarrow> select_correct_answer db' q = select_correct_answer db q"
  by (simp add: select_correct_answer_def)

lemma answers_of_session_cong:
  "player_answers db' = player_answers db \<Longrightarrow> answers_of_session db' sid = answers_of_session db sid"
  by (simp add: answers_of_session_def)

lemma select_active_session_map:
  assumes "game_sessions db' = map f (game_sessions db)"
      and "\<And>gs. gs_session_id (f gs) = gs_session_id gs"
      and "\<And>gs pid. is_open_session_of pid (f gs) = is_open_session_of pid gs"
  shows "select_active_session db' v = select_active_session db v"
proof (cases v)
  case None
  then show ?thesis by (simp add: select_active_session_def)
next
  case (Some pid)
  have "find (is_open_session_of pid) (map f (game_sessions db)) =
          map_option f (find (is_open_session_of pid) (game_sessions db))"
    by (rule find_map_same_test) (rule assms(3))
  then show ?thesis
    using Some assms(1,2) by (simp add: select_active_session_def option.map_comp comp_def)
qed

lemma select_active_session_after_trigger:
  "select_active_session (fn_update_game_sessions db new) v = select_active_session (db\<lparr>player_answers := pas\<rparr>) v"
proof -
  have "select_active_session (fn_update_game_sessions db new) v = select_active_session db v"
    by (rule select_active_session_map[where f = "\<lambda>gs. if gs_session_id gs = pa_session_id new
              then gs\<lparr>gs_questions_solved := length (answers_of_session db (pa_session_id new))\<rparr>
              else gs"])
       (simp_all add: fn_update_game_sessions_def is_open_session_of_def)
  moreover have "select_active_session (db\<lparr>player_answers := pas\<rparr>) v = select_active_session db v"
    by (simp add: select_active_session_def split: option.splits)
  ultimately show ?thesis by simp
qed

lemma select_active_session_player_answers_update [simp]:
  "select_active_session (db\<lparr>player_answers := pas\<rparr>) v = select_active_session db v"
  by (simp add: select_active_session_def split: option.splits)

text \<open>After a successful record call the lookups give what they gave before.\<close>

lemma sp_record_keeps_lookups:
  assumes "sp_record_player_answers db username q a now = Inr db1"
  shows "select_player_id db1 u = select_player_id db u"
    and "select_active_session db1 v = select_active_session db v"
    and "select_correct_answer db1 q' = select_correct_answer db q'"
proof -
  from assms obtain pid sid k where
    db1: "db1 = fn_update_game_sessions
             (db\<lparr>player_answers := player_answers db @ [new_player_answer pid q sid a (a = k) now]\<rparr>)
             (new_player_answer pid q sid a (a = k) now)"
    by (rule sp_record_Inr_D)
  show "select_player_id db1 u = select_player_id db u"
    unfolding db1 by (rule select_player_id_cong) simp
  show "select_correct_answer db1 q' = select_correct_answer db q'"
    unfolding db1 by (rule select_correct_answer_cong) simp
  show "select_active_session db1 v = select_active_session db v"
    unfolding db1 by (simp add: select_active_session_after_trigger[where pas = "player_answers db"])
qed

lemma select_active_session_SomeD:
  assumes "select_active_session db (Some pid) = Some sid"
  shows "\<exists>gs \<in> set (game_sessions db). gs_session_id gs = sid \<and> is_open_session_of pid gs"
proof -
  from assms obtain gs where f: "find (is_open_session_of pid) (game_sessions db) = Some gs"
      and s: "gs_session_id gs = sid"
    by (auto simp: select_active_session_def)
  from f have "gs \<in> set (game_sessions db)" "is_open_session_of pid gs"
    by (auto simp: find_Some_iff)
  with s show ?thesis by blast
qed


text \<open>
  C4. When a record call for \<open>(player, question, session)\<close> has succeeded, a second call
  with the same player and question (any valid letter, any clock reading) finds the same
  active session and raises the primary-key violation of \<open>player_answers\<close>. The
  connection, on which the first call was committed, is rolled back to that state, and
  the error is raised to the caller; the table holds exactly one row for the key, the
  row the first call inserted, with its letter, correctness flag and timestamp.
\<close>

theorem second_record_is_unique_violation:
  assumes "sp_record_player_answers db username q a now = Inr db1"
      and "a' \<in> {CHR ''a'', CHR ''b'', CHR ''c'', CHR ''d''}"
  shows "sp_record_player_answers db1 username q a' now' = Inl UniqueViolation \<and>
         (committed conn = db1 \<and> working conn = db1 \<longrightarrow>
            step conn (RecordAnswer username q a' now') = conn) \<and>
         (\<exists>pid sid k.
            select_player_id db username = Some pid \<and>
            select_active_session db (Some pid) = Some sid \<and>
            select_correct_answer db q = Some k \<and>
            filter (\<lambda>pa. pa_player_id pa = pid \<and> pa_question_id pa = q \<and> pa_session_id pa = sid)
                   (player_answers db1) = [new_player_answer pid q sid a (a = k) now]) \<and>
         (committed conn = db1 \<and> working conn = db1 \<longrightarrow>
            call_sp_record_player_answers conn username q a' now' =
              (Inl (DatabaseError UniqueViolation), conn))"
proof -
  from assms(1) obtain pid sid k where
    pid: "select_player_id db username = Some pid" and
    sid: "select_active_session db (Some pid) = Some sid" and
    k: "select_correct_answer db q = Some k" and
    fresh: "\<forall>pa \<in> set (player_answers db).
       \<not> (pa_player_id pa = pid \<and> pa_question_id pa = q \<and> pa_session_id pa = sid)" and
    db1: "db1 = fn_update_game_sessions
             (db\<lparr>player_answers := player_answers db @ [new_player_answer pid q sid a (a = k) now]\<rparr>)
             (new_player_answer pid q sid a (a = k) now)"
    by (rule sp_record_Inr_D)
  let ?key = "\<lambda>pa. pa_player_id pa = pid \<and> pa_question_id pa = q \<and> pa_session_id pa = sid"
  let ?new = "new_player_answer pid q sid a (a = k) now"
  have pas: "player_answers db1 = player_answers db @ [?new]"
    unfolding db1 by simp
  have old: "filter ?key (player_answers db) = []"
    using fresh by (simp add: filter_empty_conv)
  have new: "?key ?new" by (simp add: new_player_answer_def)
  have one: "filter ?key (player_answers db1) = [?new]"
    unfolding pas using old new by simp
  have pid1: "select_player_id db1 username = Some pid"
    using sp_record_keeps_lookups(1)[OF assms(1)] pid by simp
  have sid1: "select_active_session db1 (Some pid) = Some sid"
    using sp_record_keeps_lookups(2)[OF assms(1)] sid by simp
  have k1: "select_correct_answer db1 q = Some k"
    using sp_record_keeps_lookups(3)[OF assms(1)] k by simp
  have present: "\<exists>pa \<in> set (player_answers db1). ?key pa"
    unfolding pas using new by simp
  have err: "sp_record_player_answers db1 username q a' now' = Inl UniqueViolation"
    using assms(2) present
    by (simp add: sp_record_player_answers_def pid1 sid1 k1 insert_player_answer_def)
  have call: "call_sp_record_player_answers conn username q a' now' =
                (Inl (DatabaseError UniqueViolation), conn)"
    if "committed conn = db1 \<and> working conn = db1"
    using that err
    by (simp add: call_sp_record_player_answers_def execute_pg_procedure_def rollback_def)
  have stay: "step conn (RecordAnswer username q a' now') = conn"
    if "committed conn = db1 \<and> working conn = db1"
    using call[OF that] by simp
  from pid sid k one have ex: "\<exists>pid sid k.
            select_player_id db username = Some pid \<and>
            select_active_session db (Some pid) = Some sid \<and>
            select_correct_answer db q = Some k \<and>
            filter (\<lambda>pa. pa_player_id pa = pid \<and> pa_question_id pa = q \<and> pa_session_id pa = sid)
                   (player_answers db1) = [new_player_answer pid q sid a (a = k) now]"
    by blast
  show ?thesis using err stay ex call by blast
qed

lemma example_first_record:
  "sp_record_player_answers example_db_playing ''ann'' 1 (CHR ''a'') 10 = Inr example_db_answered"
  by (simp add: sp_record_player_answers_def select_player_id_def select_active_session_def
        is_open_session_of_def select_correct_answer_def insert_player_answer_def
        fn_update_game_sessions_def answers_of_session_def new_player_answer_def
        example_db_playing_def example_db_answered_def example_db_def)

theorem second_record_is_unique_violation_witness:
  "sp_record_player_answers example_db_playing ''ann'' 1 (CHR ''a'') 10 = Inr example_db_answered \<and>
   sp_record_player_answers example_db_answered ''ann'' 1 (CHR ''b'') 20 = Inl UniqueViolation \<and>
   step (connect_to_pg example_db_answered) (RecordAnswer ''ann'' 1 (CHR ''b'') 20) =
     connect_to_pg example_db_answered \<and>
   call_sp_record_player_answers (connect_to_pg example_db_answered) ''ann'' 1 (CHR ''b'') 20 =
     (Inl (DatabaseError UniqueViolation), connect_to_pg example_db_answered) \<and>
   player_answers example_db_answered = [new_player_answer 1 1 1 (CHR ''a'') True 10]"
proof -
  have letter: "CHR ''b'' \<in> {CHR ''a'', CHR ''b'', CHR ''c'', CHR ''d''}" by simp
  have conn: "committed (connect_to_pg example_db_answered) = example_db_answered \<and>
              working (connect_to_pg example_db_answered) = example_db_answered"
    by (simp add: connect_to_pg_def)
  from second_record_is_unique_violation
         [OF example_first_record letter, of 20 "connect_to_pg example_db_answered"] conn
  show ?thesis using example_first_record by (simp add: example_db_answered_def)
qed

section \<open>The counter of solved questions\<close>

text \<open>One successful record call: one more row for the session, and the trigger's count.\<close>

lemma record_step:
  assumes rec: "sp_record_player_answers db username q a now = Inr db1"
      and pid: "select_player_id db username = Some pid"
      and sid: "select_active_session db (Some pid) = Some sid"
  shows "length (answers_of_session db1 sid) = Suc (length (answers_of_session db sid))"
    and "\<forall>gs \<in> set (game_sessions db1). gs_session_id gs = sid \<longrightarrow>
           gs_questions_solved gs = length (answers_of_session db1 sid)"
    and "\<forall>gs \<in> set (game_sessions db1). gs_session_id gs \<noteq> sid \<longrightarrow> gs \<in> set (game_sessions db)"
    and "\<forall>s'. s' \<noteq> sid \<longrightarrow> answers_of_session db1 s' = answers_of_session db s'"
    and "q \<notin> pa_question_id ` set (answers_of db (Some pid) (Some sid))"
    and "pa_question_id ` set (answers_of db1 (Some pid) (Some sid)) =
           insert q (pa_question_id ` set (answers_of db (Some pid) (Some sid)))"
proof -
  from rec obtain pid' sid' k where
    pid': "select_player_id db username = Some pid'" and
    sid': "select_active_session db (Some pid') = Some sid'" and
    fresh': "\<forall>pa \<in> set (player_answers db).
       \<not> (pa_player_id pa = pid' \<and> pa_question_id pa = q \<and> pa_session_id pa = sid')" and
    db1': "db1 = fn_update_game_sessions
             (db\<lparr>player_answers := player_answers db @ [new_player_answer pid' q sid' a (a = k) now]\<rparr>)
             (new_player_answer pid' q sid' a (a = k) now)"
    by (rule sp_record_Inr_D)
  have [simp]: "pid' = pid" using pid pid' by simp
  have [simp]: "sid' = sid" using sid sid' by simp
  let ?new = "new_player_answer pid q sid a (a = k) now"
  let ?db0 = "db\<lparr>player_answers := player_answers db @ [?new]\<rparr>"
  have db1: "db1 = fn_update_game_sessions ?db0 ?new" using db1' by simp
  have fresh: "\<forall>pa \<in> set (player_answers db).
       \<not> (pa_player_id pa = pid \<and> pa_question_id pa = q \<and> pa_session_id pa = sid)"
    using fresh' by simp
  have pas: "player_answers db1 = player_answers db @ [?new]" unfolding db1 by simp
  have new_sid [simp]: "pa_session_id ?new = sid" by (simp add: new_player_answer_def)
  have new_pid [simp]: "pa_player_id ?new = pid" by (simp add: new_player_answer_def)
  have new_q [simp]: "pa_question_id ?new = q" by (simp add: new_player_answer_def)
  have aos: "answers_of_session db1 sid = answers_of_session db sid @ [?new]"
    by (simp add: answers_of_session_def pas)
  have aos0: "answers_of_session ?db0 sid = answers_of_session db sid @ [?new]"
    by (simp add: answers_of_session_def)
  show "length (answers_of_session db1 sid) = Suc (length (answers_of_session db sid))"
    by (simp add: aos)
  have gss: "game_sessions db1 =
               map (\<lambda>gs. if gs_session_id gs = sid
                         then gs\<lparr>gs_questions_solved := length (answers_of_session ?db0 sid)\<rparr>
                         else gs) (game_sessions db)"
    unfolding db1 by (simp add: fn_update_game_sessions_def)
  show "\<forall>gs \<in> set (game_sessions db1). gs_session_id gs = sid \<longrightarrow>
           gs_questions_solved gs = length (answers_of_session db1 sid)"
  proof (intro ballI impI)
    fix gs assume g: "gs \<in> set (game_sessions db1)" and i: "gs_session_id gs = sid"
    from g obtain x where x: "x \<in> set (game_sessions db)"
        and gx: "gs = (if gs_session_id x = sid
                       then x\<lparr>gs_questions_solved := length (answers_of_session ?db0 sid)\<rparr>
                       else x)"
      unfolding gss by auto
    have "gs_session_id x = sid" using gx i by (simp split: if_splits)
    then have "gs = x\<lparr>gs_questions_solved := length (answers_of_session ?db0 sid)\<rparr>"
      using gx by simp
    then have "gs_questions_solved gs = length (answers_of_session ?db0 sid)" by simp
    then show "gs_questions_solved gs = length (answers_of_session db1 sid)"
      by (simp only: aos aos0)
  qed
  show "\<forall>gs \<in> set (game_sessions db1). gs_session_id gs \<noteq> sid \<longrightarrow> gs \<in> set (game_sessions db)"
    unfolding gss by auto
  show "\<forall>s'. s' \<noteq> sid \<longrightarrow> answers_of_session db1 s' = answers_of_session db s'"
    by (simp add: answers_of_session_def pas)
  show "q \<notin> pa_question_id ` set (answers_of db (Some pid) (Some sid))"
    using fresh by (auto simp: answers_of_def)
  show "pa_question_id ` set (answers_of db1 (Some pid) (Some sid)) =
           insert q (pa_question_id ` set (answers_of db (Some pid) (Some sid)))"
    by (simp add: answers_of_def pas)
qed

lemma record_all_answered:
  assumes "record_all db username reqs = Inr db'"
      and "select_player_id db username = Some pid"
      and "select_active_session db (Some pid) = Some sid"
  shows "select_active_session db' (Some pid) = Some sid \<and>
         length (answers_of_session db' sid) = length (answers_of_session db sid) + length reqs \<and>
         distinct (map fst reqs) \<and>
         fst ` set reqs \<inter> pa_question_id ` set (answers_of db (Some pid) (Some sid)) = {} \<and>
         (\<forall>gs \<in> set (game_sessions db'). gs_session_id gs \<noteq> sid \<longrightarrow> gs \<in> set (game_sessions db)) \<and>
         (\<forall>s'. s' \<noteq> sid \<longrightarrow> answers_of_session db' s' = answers_of_session db s')"
  using assms
proof (induction reqs arbitrary: db)
  case Nil
  then show ?case by simp
next
  case (Cons r rest)
  obtain q a now where r: "r = (q, a, now)" by (cases r) auto
  from Cons.prems(1) r obtain db1 where
    one: "sp_record_player_answers db username q a now = Inr db1" and
    more: "record_all db1 username rest = Inr db'"
    by (cases "sp_record_player_answers db username q a now") simp_all
  have pid1: "select_player_id db1 username = Some pid"
    using sp_record_keeps_lookups(1)[OF one] Cons.prems(2) by simp
  have sid1: "select_active_session db1 (Some pid) = Some sid"
    using sp_record_keeps_lookups(2)[OF one] Cons.prems(3) by simp
  note st = record_step[OF one Cons.prems(2,3)]
  from Cons.IH[OF more pid1 sid1] have ih:
    "select_active_session db' (Some pid) = Some sid"
    "length (answers_of_session db' sid) = length (answers_of_session db1 sid) + length rest"
    "distinct (map fst rest)"
    "fst ` set rest \<inter> pa_question_id ` set (answers_of db1 (Some pid) (Some sid)) = {}"
    "\<forall>gs \<in> set (game_sessions db'). gs_session_id gs \<noteq> sid \<longrightarrow> gs \<in> set (game_sessions db1)"
    "\<forall>s'. s' \<noteq> sid \<longrightarrow> answers_of_session db' s' = answers_of_session db1 s'"
    by simp_all
  have len: "length (answers_of_session db' sid) =
               length (answers_of_session db sid) + length (r # rest)"
    using ih(2) st(1) by simp
  have qnew: "q \<notin> fst ` set rest" using ih(4) st(6) by auto
  have dist: "distinct (map fst (r # rest))" using ih(3) qnew r by simp
  have disj: "fst ` set (r # rest) \<inter> pa_question_id ` set (answers_of db (Some pid) (Some sid)) = {}"
    using ih(4) st(5,6) r by auto
  have others: "\<forall>gs \<in> set (game_sessions db'). gs_session_id gs \<noteq> sid \<longrightarrow> gs \<in> set (game_sessions db)"
    using ih(5) st(3) by blast
  have rows: "\<forall>s'. s' \<noteq> sid \<longrightarrow> answers_of_session db' s' = answers_of_session db s'"
    using ih(6) st(4) by simp
  show ?case using ih(1) len dist disj others rows by blast
qed

lemma record_all_counter:
  assumes "record_all db username reqs = Inr db'" and "reqs \<noteq> []"
      and "select_player_id db username = Some pid"
      and "select_active_session db (Some pid) = Some sid"
  shows "\<forall>gs \<in> set (game_sessions db'). gs_session_id gs = sid \<longrightarrow>
           gs_questions_solved gs = length (answers_of_session db' sid)"
  using assms
proof (induction reqs arbitrary: db)
  case Nil
  then show ?case by simp
next
  case (Cons r rest)
  obtain q a now where r: "r = (q, a, now)" by (cases r) auto
  from Cons.prems(1) r obtain db1 where
    one: "sp_record_player_answers db username q a now = Inr db1" and
    more: "record_all db1 username rest = Inr db'"
    by (cases "sp_record_player_answers db username q a now") simp_all
  show ?case
  proof (cases "rest = []")
    case True
    then have "db' = db1" using more by simp
    then show ?thesis using record_step(2)[OF one Cons.prems(3,4)] by simp
  next
    case False
    have pid1: "select_player_id db1 username = Some pid"
      using sp_record_keeps_lookups(1)[OF one] Cons.prems(3) by simp
    have sid1: "select_active_session db1 (Some pid) = Some sid"
      using sp_record_keeps_lookups(2)[OF one] Cons.prems(4) by simp
    show ?thesis by (rule Cons.IH[OF more False pid1 sid1])
  qed
qed

text \<open>A record call whose key is new and whose question and letter are valid succeeds.\<close>

lemma sp_record_succeeds:
  assumes pid: "select_player_id db username = Some pid"
      and sid: "select_active_session db (Some pid) = Some sid"
      and k: "select_correct_answer db q \<noteq> None"
      and letter: "a \<in> {CHR ''a'', CHR ''b'', CHR ''c'', CHR ''d''}"
      and fresh: "q \<notin> pa_question_id ` set (answers_of db (Some pid) (Some sid))"
  shows "\<exists>db1. sp_record_player_answers db username q a now = Inr db1"
proof -
  from k obtain c where c: "select_correct_answer db q = Some c" by blast
  have no: "\<not> (\<exists>pa \<in> set (player_answers db).
              pa_player_id pa = pid \<and> pa_question_id pa = q \<and> pa_session_id pa = sid)"
    using fresh by (auto simp: answers_of_def)
  show ?thesis
    using letter no
    by (simp add: sp_record_player_answers_def insert_player_answer_def pid sid c Let_def)
qed

lemma record_all_succeeds:
  assumes "select_player_id db username = Some pid"
      and "select_active_session db (Some pid) = Some sid"
      and "distinct (map fst reqs)"
      and "\<forall>(q, a, now) \<in> set reqs.
             select_correct_answer db q \<noteq> None \<and>
             a \<in> {CHR ''a'', CHR ''b'', CHR ''c'', CHR ''d''} \<and>
             q \<notin> pa_question_id ` set (answers_of db (Some pid) (Some sid))"
  shows "\<exists>db'. record_all db username reqs = Inr db'"
  using assms
proof (induction reqs arbitrary: db)
  case Nil
  then show ?case by simp
next
  case (Cons r rest)
  obtain q a now where r: "r = (q, a, now)" by (cases r) auto
  from Cons.prems(4) r have here:
    "select_correct_answer db q \<noteq> None"
    "a \<in> {CHR ''a'', CHR ''b'', CHR ''c'', CHR ''d''}"
    "q \<notin> pa_question_id ` set (answers_of db (Some pid) (Some sid))"
    by simp_all
  from sp_record_succeeds[OF Cons.prems(1,2) here, of now] obtain db1 where
    one: "sp_record_player_answers db username q a now = Inr db1" by blast
  have pid1: "select_player_id db1 username = Some pid"
    using sp_record_keeps_lookups(1)[OF one] Cons.prems(1) by simp
  have sid1: "select_active_session db1 (Some pid) = Some sid"
    using sp_record_keeps_lookups(2)[OF one] Cons.prems(2) by simp
  have dist: "distinct (map fst rest)" and qnew: "q \<notin> fst ` set rest"
    using Cons.prems(3) r by simp_all
  have ids: "pa_question_id ` set (answers_of db1 (Some pid) (Some sid)) =
               insert q (pa_question_id ` set (answers_of db (Some pid) (Some sid)))"
    by (rule record_step(6)[OF one Cons.prems(1,2)])
  have later: "\<forall>(q', a', now') \<in> set rest.
             select_correct_answer db1 q' \<noteq> None \<and>
             a' \<in> {CHR ''a'', CHR ''b'', CHR ''c'', CHR ''d''} \<and>
             q' \<notin> pa_question_id ` set (answers_of db1 (Some pid) (Some sid))"
  proof (intro ballI, clarify)
    fix q' a' now' assume m: "(q', a', now') \<in> set rest"
    then have p: "select_correct_answer db q' \<noteq> None"
        "a' \<in> {CHR ''a'', CHR ''b'', CHR ''c'', CHR ''d''}"
        "q' \<notin> pa_question_id ` set (answers_of db (Some pid) (Some sid))"
      using Cons.prems(4) by auto
    from m have "q' \<in> fst ` set rest" by force
    with qnew have ne: "q' \<noteq> q" by blast
    have c1: "select_correct_answer db1 q' \<noteq> None"
      using sp_record_keeps_lookups(3)[OF one, of q'] p(1) by simp
    have fresh1: "q' \<notin> pa_question_id ` set (answers_of db1 (Some pid) (Some sid))"
      unfolding ids using p(3) ne by simp
    from c1 p(2) fresh1
    show "select_correct_answer db1 q' \<noteq> None \<and>
          a' \<in> {CHR ''a'', CHR ''b'', CHR ''c'', CHR ''d''} \<and>
          q' \<notin> pa_question_id ` set (answers_of db1 (Some pid) (Some sid))"
      by blast
  qed
  from Cons.IH[OF pid1 sid1 dist later] obtain db' where
    "record_all db1 username rest = Inr db'" by blast
  then show ?case using one r by simp
qed

text \<open>
  C2, as the code has it. Take a player with an active session and a non-empty sequence
  of record calls with distinct question ids, each for an existing question not yet
  answered in the session and with a letter a-d. All calls succeed, all go into that
  session, and afterwards the \<open>questions_solved\<close> of the session is its number of
  \<open>player_answers\<close> rows, which has grown by the number of calls (so it is K after K
  calls into a session without answers). The rows and counters of the other sessions are
  as before, hence if every session's counter was its row count before the calls, the
  same is true after them. (The counter is recomputed by the insert trigger only: a
  session that \<open>sp_reset_player_answers\<close> has emptied keeps its old counter, as the
  replayed game below shows.)
\<close>

theorem questions_solved_is_answer_count:
  assumes "select_player_id db username = Some pid"
      and "select_active_session db (Some pid) = Some sid"
      and "reqs \<noteq> []"
      and "distinct (map fst reqs)"
      and "\<forall>(q, a, now) \<in> set reqs.
             select_correct_answer db q \<noteq> None \<and>
             a \<in> {CHR ''a'', CHR ''b'', CHR ''c'', CHR ''d''} \<and>
             q \<notin> pa_question_id ` set (answers_of db (Some pid) (Some sid))"
  shows "\<exists>db'.
           record_all db username reqs = Inr db' \<and>
           select_active_session db' (Some pid) = Some sid \<and>
           (\<exists>gs \<in> set (game_sessions db'). gs_session_id gs = sid) \<and>
           (\<forall>gs \<in> set (game_sessions db'). gs_session_id gs = sid \<longrightarrow>
              gs_questions_solved gs = length (answers_of_session db' sid)) \<and>
           length (answers_of_session db' sid) = length (answers_of_session db sid) + length reqs \<and>
           (\<forall>gs \<in> set (game_sessions db'). gs_session_id gs \<noteq> sid \<longrightarrow> gs \<in> set (game_sessions db)) \<and>
           (\<forall>s'. s' \<noteq> sid \<longrightarrow> answers_of_session db' s' = answers_of_session db s') \<and>
           ((\<forall>gs \<in> set (game_sessions db).
               gs_questions_solved gs = length (answers_of_session db (gs_session_id gs))) \<longrightarrow>
            (\<forall>gs \<in> set (game_sessions db').
               gs_questions_solved gs = length (answers_of_session db' (gs_session_id gs))))"
proof -
  from record_all_succeeds[OF assms(1,2,4,5)] obtain db' where
    run: "record_all db username reqs = Inr db'" by blast
  note all = record_all_answered[OF run assms(1,2)]
  note cnt = record_all_counter[OF run assms(3,1,2)]
  from all have a1: "select_active_session db' (Some pid) = Some sid"
    and a2: "length (answers_of_session db' sid) = length (answers_of_session db sid) + length reqs"
    and a4: "\<forall>gs \<in> set (game_sessions db'). gs_session_id gs \<noteq> sid \<longrightarrow> gs \<in> set (game_sessions db)"
    and a5: "\<forall>s'. s' \<noteq> sid \<longrightarrow> answers_of_session db' s' = answers_of_session db s'"
    by simp_all
  have ex: "\<exists>gs \<in> set (game_sessions db'). gs_session_id gs = sid"
    using select_active_session_SomeD[OF a1] by blast
  have sync: "(\<forall>gs \<in> set (game_sessions db).
               gs_questions_solved gs = length (answers_of_session db (gs_session_id gs))) \<longrightarrow>
            (\<forall>gs \<in> set (game_sessions db').
               gs_questions_solved gs = length (answers_of_session db' (gs_session_id gs)))"
  proof (intro impI ballI)
    fix gs
    assume before: "\<forall>gs \<in> set (game_sessions db).
               gs_questions_solved gs = length (answers_of_session db (gs_session_id gs))"
       and gs: "gs \<in> set (game_sessions db')"
    show "gs_questions_solved gs = length (answers_of_session db' (gs_session_id gs))"
    proof (cases "gs_session_id gs = sid")
      case True
      then show ?thesis using cnt gs by simp
    next
      case False
      then have "gs \<in> set (game_sessions db)" using a4 gs by blast
      then have "gs_questions_solved gs = length (answers_of_session db (gs_session_id gs))"
        using before by blast
      then show ?thesis using a5 False by simp
    qed
  qed
  show ?thesis
    by (intro exI[of _ db'] conjI run a1 ex cnt a2 a4 a5 sync)
qed

lemma example_two_records:
  "select_player_id example_db_playing ''ann'' = Some 1"
  "select_active_session example_db_playing (Some 1) = Some 1"
  "[(1::nat, CHR ''a'', 10::int), (2, CHR ''c'', 11)] \<noteq> []"
  "distinct (map fst [(1::nat, CHR ''a'', 10::int), (2, CHR ''c'', 11)])"
  "\<forall>(q, a, now) \<in> set [(1::nat, CHR ''a'', 10::int), (2, CHR ''c'', 11)].
     select_correct_answer example_db_playing q \<noteq> None \<and>
     a \<in> {CHR ''a'', CHR ''b'', CHR ''c'', CHR ''d''} \<and>
     q \<notin> pa_question_id ` set (answers_of example_db_playing (Some 1) (Some 1))"
  "answers_of_session example_db_playing 1 = []"
  by (simp_all add: example_db_playing_def example_db_def select_player_id_def
        select_active_session_def is_open_session_of_def select_correct_answer_def
        answers_of_def answers_of_session_def)

theorem questions_solved_is_answer_count_witness:
  "\<exists>db'.
     record_all example_db_playing ''ann'' [(1, CHR ''a'', 10), (2, CHR ''c'', 11)] = Inr db' \<and>
     (\<exists>gs \<in> set (game_sessions db'). gs_session_id gs = 1) \<and>
     (\<forall>gs \<in> set (game_sessions db'). gs_session_id gs = 1 \<longrightarrow> gs_questions_solved gs = 2) \<and>
     length (answers_of_session db' 1) = 2"
proof -
  from questions_solved_is_answer_count[OF example_two_records(1-5)] obtain db' where
    "record_all example_db_playing ''ann'' [(1, CHR ''a'', 10), (2, CHR ''c'', 11)] = Inr db'"
    "\<exists>gs \<in> set (game_sessions db'). gs_session_id gs = 1"
    "\<forall>gs \<in> set (game_sessions db'). gs_session_id gs = 1 \<longrightarrow>
       gs_questions_solved gs = length (answers_of_session db' 1)"
    "length (answers_of_session db' 1) =
       length (answers_of_session example_db_playing 1) + length [(1::nat, CHR ''a'', 10::int), (2, CHR ''c'', 11)]"
    by blast
  then show ?thesis using example_two_records(6) by (intro exI[of _ db']) simp
qed

text \<open>
  The claim as the spec words it, for every session, fails: after \<open>example_replay\<close> the
  session that was reset, the first row of \<open>game_sessions\<close>, still counts one solved
  question and has no row in \<open>player_answers\<close>, while an answer has just been recorded
  into the second session.
\<close>

theorem reset_leaves_stale_counter:
  "run (connect_to_pg example_db) example_replay = connect_to_pg example_db_replayed \<and>
   gs_session_id (hd (game_sessions example_db_replayed)) = 1 \<and>
   gs_questions_solved (hd (game_sessions example_db_replayed)) = 1 \<and>
   answers_of_session example_db_replayed 1 = []"
  by code_simp

section \<open>The guard of sp_update_high_scores\<close>

text \<open>
  C10. \<open>sp_update_high_scores\<close> looks at the player's completed session that started
  last. Unless that session has exactly 20 rows in \<open>player_answers\<close> and at least one
  correct one, the procedure returns the database as it is; so a call that changes
  \<open>high_scores\<close> had a positive count of correct answers and exactly 20 answers. No call
  changes anything but \<open>high_scores\<close>.
\<close>

theorem high_scores_written_only_for_twenty_answers:
  "(let v_player_id = select_player_id db username;
        v_session_id = map_option gs_session_id (select_latest_completed_session db v_player_id);
        total = length (answers_of db v_player_id v_session_id);
        correct_answers = length (filter pa_is_correct (answers_of db v_player_id v_session_id))
    in (total \<noteq> 20 \<or> correct_answers = 0 \<longrightarrow> sp_update_high_scores db username = Inr db) \<and>
       (\<forall>db'. sp_update_high_scores db username = Inr db' \<and> high_scores db' \<noteq> high_scores db
              \<longrightarrow> 0 < correct_answers \<and> total = 20) \<and>
       (\<forall>db'. sp_update_high_scores db username = Inr db'
              \<longrightarrow> db' = db\<lparr>high_scores := high_scores db'\<rparr>))"
proof -
  let ?p = "select_player_id db username"
  let ?s = "map_option gs_session_id (select_latest_completed_session db ?p)"
  let ?total = "length (answers_of db ?p ?s)"
  let ?correct = "length (filter pa_is_correct (answers_of db ?p ?s))"
  have skip: "sp_update_high_scores db username = Inr db" if "?total \<noteq> 20 \<or> ?correct = 0"
    using that by (auto simp: sp_update_high_scores_def Let_def)
  have only: "0 < ?correct \<and> ?total = 20"
    if "sp_update_high_scores db username = Inr db'" "high_scores db' \<noteq> high_scores db" for db'
  proof (rule ccontr)
    assume "\<not> (0 < ?correct \<and> ?total = 20)"
    then have "sp_update_high_scores db username = Inr db" using skip by auto
    with that show False by simp
  qed
  have frame: "db' = db\<lparr>high_scores := high_scores db'\<rparr>"
    if "sp_update_high_scores db username = Inr db'" for db'
  proof (cases "0 < ?correct \<and> ?total = 20")
    case True
    with that show ?thesis
      by (auto simp: sp_update_high_scores_def Let_def split: sum.splits)
  next
    case False
    then have "sp_update_high_scores db username = Inr db" using skip by auto
    with that show ?thesis by simp
  qed
  show ?thesis unfolding Let_def using skip only frame by blast
qed

lemma example_completed_lookup:
  "select_player_id example_db_completed ''ann'' = Some (Suc 0)"
  "select_latest_completed_session example_db_completed (Some (Suc 0)) =
     Some \<lparr>gs_session_id = Suc 0, gs_player_id = Some (Suc 0), gs_start_time = 5,
           gs_end_time = Some 10, gs_questions_solved = Suc 0,
           gs_is_completed = True, gs_is_active = False\<rparr>"
  "answers_of example_db_completed (Some (Suc 0)) (Some (Suc 0)) =
     [new_player_answer (Suc 0) (Suc 0) (Suc 0) (CHR ''a'') True 10]"
  by (simp_all add: select_player_id_def select_latest_completed_session_def answers_of_def
        new_player_answer_def example_db_completed_def example_db_answered_def example_db_def)

theorem high_scores_written_only_for_twenty_answers_witness:
  "length (answers_of example_db_completed (Some 1) (Some 1)) \<noteq> 20 \<and>
   0 < length (filter pa_is_correct (answers_of example_db_completed (Some 1) (Some 1))) \<and>
   sp_update_high_scores example_db_completed ''ann'' = Inr example_db_completed"
  using high_scores_written_only_for_twenty_answers[of example_db_completed "''ann''"]
  by (simp add: Let_def example_completed_lookup new_player_answer_def)

section \<open>The least correctly answered questions\<close>

lemma times_correct_pos_iff:
  "0 < times_correct db q \<longleftrightarrow> q \<in> pa_question_id ` set (filter pa_is_correct (player_answers db))"
proof -
  have "0 < times_correct db q \<longleftrightarrow>
          filter (\<lambda>pa. pa_is_correct pa \<and> pa_question_id pa = q) (player_answers db) \<noteq> []"
    by (simp add: times_correct_def)
  also have "\<dots> \<longleftrightarrow> (\<exists>pa \<in> set (player_answers db). pa_is_correct pa \<and> pa_question_id pa = q)"
    by (simp add: filter_empty_conv)
  also have "\<dots> \<longleftrightarrow> q \<in> pa_question_id ` set (filter pa_is_correct (player_answers db))"
    by auto
  finally show ?thesis .
qed

lemma set_correct_counts:
  "set (correct_counts db) = {(q, c). c = times_correct db q \<and> 0 < c}"
proof -
  have "set (correct_counts db) =
          (\<lambda>q. (q, times_correct db q)) ` pa_question_id ` set (filter pa_is_correct (player_answers db))"
    by (simp add: correct_counts_def Let_def times_correct_def)
  also have "\<dots> = {(q, c). c = times_correct db q \<and> 0 < c}"
    by (auto simp: times_correct_pos_iff)
  finally show ?thesis .
qed

lemma distinct_correct_counts: "distinct (map fst (correct_counts db))"
  by (simp add: correct_counts_def Let_def comp_def)

lemma sql_min_eq_Min:
  assumes "xs \<noteq> []"
  shows "sql_min xs = Some (Min (set xs))"
proof (cases xs)
  case Nil
  with assms show ?thesis by simp
next
  case (Cons a list)
  show ?thesis unfolding Cons by (simp only: sql_min.simps Min.set_eq_fold)
qed

text \<open>
  C8. The query returns exactly the pairs \<open>(question, count)\<close> where \<open>count\<close> is the
  question's number of correct answers, is positive, and is no greater than the count of
  any question with a correct answer: every question tied for the fewest correct answers
  is there, once, and a question without a correct answer is not.
\<close>

theorem least_correctly_answered_returns_all_minima:
  "set (fn_get_least_correctly_answered_question db) =
     {(q, c). c = times_correct db q \<and> 0 < c \<and>
              (\<forall>q'. 0 < times_correct db q' \<longrightarrow> c \<le> times_correct db q')} \<and>
   distinct (map fst (fn_get_least_correctly_answered_question db))"
proof
  let ?cc = "correct_counts db"
  let ?S = "snd ` set ?cc"
  have S: "?S = {c. \<exists>q. c = times_correct db q \<and> 0 < c}"
    by (auto simp: set_correct_counts image_iff)
  have fin: "finite ?S" by simp
  have member: "(q, c) \<in> set (fn_get_least_correctly_answered_question db) \<longleftrightarrow>
                  c = times_correct db q \<and> 0 < c \<and>
                  (\<forall>q'. 0 < times_correct db q' \<longrightarrow> c \<le> times_correct db q')" for q c
  proof (cases "(q, c) \<in> set ?cc")
    case False
    then show ?thesis
      by (auto simp: fn_get_least_correctly_answered_question_def set_correct_counts)
  next
    case True
    then have ne: "map snd ?cc \<noteq> []" by auto
    have cS: "c \<in> ?S" using True by force
    have qc: "c = times_correct db q \<and> 0 < c" using True by (simp add: set_correct_counts)
    have "(q, c) \<in> set (fn_get_least_correctly_answered_question db) \<longleftrightarrow> c = Min ?S"
      using True sql_min_eq_Min[OF ne]
      by (auto simp: fn_get_least_correctly_answered_question_def)
    also have "\<dots> \<longleftrightarrow> (\<forall>x \<in> ?S. c \<le> x)"
      using fin cS by (metis Min_eqI Min_le)
    also have "\<dots> \<longleftrightarrow> (\<forall>q'. 0 < times_correct db q' \<longrightarrow> c \<le> times_correct db q')"
      unfolding S by blast
    finally show ?thesis using qc by blast
  qed
  show "set (fn_get_least_correctly_answered_question db) =
     {(q, c). c = times_correct db q \<and> 0 < c \<and>
              (\<forall>q'. 0 < times_correct db q' \<longrightarrow> c \<le> times_correct db q')}"
    using member by auto
  show "distinct (map fst (fn_get_least_correctly_answered_question db))"
    unfolding fn_get_least_correctly_answered_question_def
    by (rule distinct_map_filter[OF distinct_correct_counts])
qed

lemma example_least_correct:
  "fn_get_least_correctly_answered_question (example_db\<lparr>player_answers := example_answers\<rparr>) =
     [(2, 1), (3, 1)]"
  by (simp add: fn_get_least_correctly_answered_question_def correct_counts_def
        example_answers_def new_player_answer_def)

theorem least_correctly_answered_returns_all_minima_witness:
  "fn_get_least_correctly_answered_question (example_db\<lparr>player_answers := example_answers\<rparr>) =
     [(2, 1), (3, 1)] \<and>
   {(2, 1), (3, 1)} =
     {(q, c). c = times_correct (example_db\<lparr>player_answers := example_answers\<rparr>) q \<and> 0 < c \<and>
              (\<forall>q'. 0 < times_correct (example_db\<lparr>player_answers := example_answers\<rparr>) q'
                     \<longrightarrow> c \<le> times_correct (example_db\<lparr>player_answers := example_answers\<rparr>) q')}"
  using least_correctly_answered_returns_all_minima
          [of "example_db\<lparr>player_answers := example_answers\<rparr>"]
  by (simp only: example_least_correct list.set)

section \<open>The invariant of the engine operations\<close>


lemma wf_db_questions:
  "wf_db db \<Longrightarrow> distinct (map q_question_id (questions db))"
  by (simp add: wf_db_def)

lemma wf_db_session_ids:
  "wf_db db \<Longrightarrow> distinct (map gs_session_id (game_sessions db))"
  by (simp add: wf_db_def)


lemma wf_db_active_open:
  "wf_db db \<Longrightarrow> gs \<in> set (game_sessions db) \<Longrightarrow> gs_is_active gs \<Longrightarrow> \<not> gs_is_completed gs"
  by (simp add: wf_db_def)

lemma wf_db_one_active:
  assumes "wf_db db" "gs \<in> set (game_sessions db)" "gs' \<in> set (game_sessions db)"
      and "gs_is_active gs" "gs_is_active gs'" "gs_player_id gs \<noteq> None"
      and "gs_player_id gs = gs_player_id gs'"
  shows "gs_session_id gs = gs_session_id gs'"
proof -
  from assms(1) have "\<forall>gs \<in> set (game_sessions db). \<forall>gs' \<in> set (game_sessions db).
        gs_is_active gs \<and> gs_is_active gs' \<and> gs_player_id gs \<noteq> None \<and>
        gs_player_id gs = gs_player_id gs' \<longrightarrow> gs_session_id gs = gs_session_id gs'"
    unfolding wf_db_def by (elim conjE)
  with assms(2-) show ?thesis by blast
qed

lemma wf_db_answer_session:
  "wf_db db \<Longrightarrow> pa \<in> set (player_answers db) \<Longrightarrow>
     \<exists>gs \<in> set (game_sessions db).
       gs_session_id gs = pa_session_id pa \<and> gs_player_id gs = Some (pa_player_id pa)"
  by (simp add: wf_db_def)

lemma wf_db_counter:
  "wf_db db \<Longrightarrow> gs \<in> set (game_sessions db) \<Longrightarrow> gs_is_active gs \<Longrightarrow>
     gs_questions_solved gs = length (answers_of_session db (gs_session_id gs))"
  by (simp add: wf_db_def)


lemma wf_db_high_scores_update [simp]:
  "wf_db (db\<lparr>high_scores := tbl\<rparr>) = wf_db db"
  by (simp add: wf_db_def answers_of_session_def)



text \<open>The two procedures that close a session, spelled out.\<close>

lemma sp_completing_session_unfold:
  "sp_completing_session db u =
     (case select_active_session db (select_player_id db u) of
        None \<Rightarrow> db
      | Some sid \<Rightarrow>
          db\<lparr>game_sessions :=
               map (\<lambda>gs. if gs_session_id gs = sid
                         then gs\<lparr>gs_is_completed := True, gs_is_active := False,
                                 gs_end_time := max_answered_at db (Some sid)\<rparr>
                         else gs)
                   (game_sessions db)\<rparr>)"
  by (simp add: sp_completing_session_def update_game_sessions_def Let_def split: option.splits)

lemma select_active_session_no_player [simp]:
  "select_active_session db None = None"
  by (simp add: select_active_session_def)

lemma sp_reset_player_answers_unfold:
  "sp_reset_player_answers db u =
     (case select_player_id db u of
        None \<Rightarrow> db
      | Some pid \<Rightarrow>
          (case select_active_session db (Some pid) of
             None \<Rightarrow> db
           | Some sid \<Rightarrow>
               db\<lparr>player_answers :=
                    filter (\<lambda>pa. \<not> (pa_player_id pa = pid \<and> pa_session_id pa = sid))
                           (player_answers db),
                  game_sessions :=
                    map (\<lambda>gs. if gs_session_id gs = sid then gs\<lparr>gs_is_active := False\<rparr> else gs)
                        (game_sessions db)\<rparr>))"
  by (simp add: sp_reset_player_answers_def update_game_sessions_def delete_player_answers_def
        Let_def split: option.splits)















text \<open>The active session of a player in a well-formed database.\<close>

lemma length_filter_le_one:
  assumes "distinct (map f xs)"
      and "\<And>x y. x \<in> set xs \<Longrightarrow> y \<in> set xs \<Longrightarrow> P x \<Longrightarrow> P y \<Longrightarrow> f x = f y"
  shows "length (filter P xs) \<le> 1"
  using assms
proof (induction xs)
  case Nil
  then show ?case by simp
next
  case (Cons x xs)
  have ih: "length (filter P xs) \<le> 1"
    using Cons.prems by (intro Cons.IH) auto
  show ?case
  proof (cases "P x")
    case True
    have "filter P xs = []"
    proof (rule ccontr)
      assume "filter P xs \<noteq> []"
      then obtain y where y: "y \<in> set xs" "P y"
        by (auto simp: filter_empty_conv)
      then have "f x = f y" using Cons.prems(2)[of x y] True by simp
      with y(1) Cons.prems(1) show False by force
    qed
    with True show ?thesis by simp
  next
    case False
    with ih show ?thesis by simp
  qed
qed

lemma wf_db_active_sessions:
  assumes "wf_db db"
  shows "length (active_sessions_of db pid) \<le> 1"
  unfolding active_sessions_of_def
proof (rule length_filter_le_one[where f = gs_session_id])
  show "distinct (map gs_session_id (game_sessions db))"
    by (rule wf_db_session_ids[OF assms])
next
  fix x y
  assume "x \<in> set (game_sessions db)" "y \<in> set (game_sessions db)"
     and "gs_player_id x = Some pid \<and> gs_is_active x" "gs_player_id y = Some pid \<and> gs_is_active y"
  then show "gs_session_id x = gs_session_id y"
    using wf_db_one_active[OF assms, of x y] by simp
qed

lemma find_filter_conv:
  "find P xs = (case filter P xs of [] \<Rightarrow> None | x # _ \<Rightarrow> Some x)"
  by (induction xs) simp_all

lemma wf_db_open_sessions:
  assumes "wf_db db"
  shows "filter (is_open_session_of pid) (game_sessions db) = active_sessions_of db pid"
  unfolding active_sessions_of_def
proof (rule filter_cong[OF refl])
  fix gs assume "gs \<in> set (game_sessions db)"
  then show "is_open_session_of pid gs = (gs_player_id gs = Some pid \<and> gs_is_active gs)"
    using wf_db_active_open[OF assms, of gs] by (auto simp: is_open_session_of_def)
qed

lemma wf_db_select_active_session:
  assumes "wf_db db"
  shows "select_active_session db (Some pid) =
           (case active_sessions_of db pid of [] \<Rightarrow> None | gs # _ \<Rightarrow> Some (gs_session_id gs))"
  by (simp add: select_active_session_def find_filter_conv wf_db_open_sessions[OF assms]
        split: list.splits)

lemma filter_singleton:
  assumes "x \<in> set xs" "P x" "length (filter P xs) \<le> 1"
  shows "filter P xs = [x]"
proof -
  from assms(1,2) have m: "x \<in> set (filter P xs)" by simp
  then obtain y ys where f: "filter P xs = y # ys" by (cases "filter P xs") auto
  with assms(3) have "ys = []" by simp
  with f m show ?thesis by simp
qed

text \<open>In a well-formed database the lookup finds the one active row of the player.\<close>

lemma wf_db_select_active_row:
  assumes wf: "wf_db db"
      and gs: "gs \<in> set (game_sessions db)" "gs_player_id gs = Some pid" "gs_is_active gs"
  shows "select_active_session db (Some pid) = Some (gs_session_id gs)"
proof -
  have "active_sessions_of db pid = [gs]"
    unfolding active_sessions_of_def
    by (rule filter_singleton[OF gs(1)])
       (use gs wf_db_active_sessions[OF wf, of pid] in \<open>simp_all add: active_sessions_of_def\<close>)
  then show ?thesis by (simp add: wf_db_select_active_session[OF wf])
qed

lemma wf_db_answers_of_player:
  assumes wf: "wf_db db"
      and gs: "gs \<in> set (game_sessions db)" "gs_player_id gs = Some pid"
      and pa: "pa \<in> set (player_answers db)" "pa_session_id pa = gs_session_id gs"
  shows "pa_player_id pa = pid"
proof -
  from wf_db_answer_session[OF wf pa(1)] obtain g where
    g: "g \<in> set (game_sessions db)" "gs_session_id g = pa_session_id pa"
       "gs_player_id g = Some (pa_player_id pa)" by blast
  have "inj_on gs_session_id (set (game_sessions db))"
    using wf_db_session_ids[OF wf] by (simp add: distinct_map)
  then have "g = gs" using g(1,2) gs(1) pa(2) by (auto dest: inj_onD)
  with g(3) gs(2) show ?thesis by simp
qed

lemma wf_db_answers_of:
  assumes wf: "wf_db db"
      and gs: "gs \<in> set (game_sessions db)" "gs_player_id gs = Some pid"
  shows "answers_of db (Some pid) (Some (gs_session_id gs)) =
           answers_of_session db (gs_session_id gs)"
  unfolding answers_of_def answers_of_session_def
  using wf_db_answers_of_player[OF wf gs] by (auto intro: filter_cong)


section \<open>One active session per player\<close>



text \<open>
  The replayed game: after the reset and the second start ann has one active session,
  the second one, and asking again returns it without a change.
\<close>

lemma example_replay_active_session:
  "active_sessions_of (working (run (connect_to_pg example_db) example_replay)) 1 =
     [\<lparr>gs_session_id = 2, gs_player_id = Some 1, gs_start_time = 20,
       gs_end_time = None, gs_questions_solved = 1,
       gs_is_completed = False, gs_is_active = True\<rparr>]"
  "get_or_create_active_session (working (run (connect_to_pg example_db) example_replay))
     (Some 1) 40 = (2, example_db_replayed)"
  by code_simp+


section \<open>Completing a session\<close>

lemma sql_max_eq_Max:
  assumes "xs \<noteq> []"
  shows "sql_max xs = Some (Max (set xs))"
proof (cases xs)
  case Nil
  with assms show ?thesis by simp
next
  case (Cons a list)
  show ?thesis unfolding Cons by (simp only: sql_max.simps Max.set_eq_fold)
qed

text \<open>
  C5. In a well-formed database (every reachable one is, see \<open>wf_conn_run\<close>), let \<open>gs\<close>
  be the active session of the player and let its \<open>questions_solved\<close> be 20. After
  \<open>sp_completing_session\<close> the row of that session has \<open>is_completed = TRUE\<close>,
  \<open>is_active = FALSE\<close> and as \<open>end_time\<close> the maximum \<open>answered_at\<close> of the session's 20 rows
  of \<open>player_answers\<close>; its other columns, the other sessions and all answers are as
  before. The player then has no active session, and a second call changes nothing; in
  general a call for a player without an active session returns the database as it is.
\<close>

theorem finalize_completes_session:
  assumes "wf_db db" "select_player_id db u = Some pid"
      and "gs \<in> set (game_sessions db)" "gs_player_id gs = Some pid" "gs_is_active gs"
      and "gs_questions_solved gs = 20"
  shows "game_sessions (sp_completing_session db u) =
           map (\<lambda>g. if gs_session_id g = gs_session_id gs
                     then g\<lparr>gs_is_completed := True, gs_is_active := False,
                            gs_end_time := Some (Max (pa_answered_at `
                                             set (answers_of_session db (gs_session_id gs))))\<rparr>
                     else g)
               (game_sessions db) \<and>
         gs\<lparr>gs_is_completed := True, gs_is_active := False,
            gs_end_time := Some (Max (pa_answered_at `
                             set (answers_of_session db (gs_session_id gs))))\<rparr>
           \<in> set (game_sessions (sp_completing_session db u)) \<and>
         length (answers_of_session db (gs_session_id gs)) = 20 \<and>
         player_answers (sp_completing_session db u) = player_answers db \<and>
         select_active_session (sp_completing_session db u) (Some pid) = None \<and>
         sp_completing_session (sp_completing_session db u) u = sp_completing_session db u \<and>
         (\<forall>db2. select_active_session db2 (select_player_id db2 u) = None \<longrightarrow>
                sp_completing_session db2 u = db2)"
proof -
  let ?sid = "gs_session_id gs"
  let ?db' = "sp_completing_session db u"
  let ?end = "Some (Max (pa_answered_at ` set (answers_of_session db ?sid)))"
  let ?f = "\<lambda>g. if gs_session_id g = ?sid
                 then g\<lparr>gs_is_completed := True, gs_is_active := False, gs_end_time := ?end\<rparr>
                 else g"
  have sid: "select_active_session db (Some pid) = Some ?sid"
    by (rule wf_db_select_active_row[OF assms(1,3,4,5)])
  have n: "length (answers_of_session db ?sid) = 20"
    using wf_db_counter[OF assms(1,3,5)] assms(6) by simp
  then have ne: "map pa_answered_at (answers_of_session db ?sid) \<noteq> []" by auto
  have mx: "max_answered_at db (Some ?sid) = ?end"
    using sql_max_eq_Max[OF ne] by (simp add: max_answered_at_def)
  have eq: "?db' = db\<lparr>game_sessions := map ?f (game_sessions db)\<rparr>"
    by (simp add: sp_completing_session_unfold assms(2) sid mx)
  have rows: "game_sessions ?db' = map ?f (game_sessions db)" unfolding eq by simp
  have row: "gs\<lparr>gs_is_completed := True, gs_is_active := False, gs_end_time := ?end\<rparr>
               \<in> set (game_sessions ?db')"
  proof -
    have "?f gs \<in> ?f ` set (game_sessions db)" using assms(3) by (rule imageI)
    then show ?thesis unfolding rows by simp
  qed
  have pas: "player_answers ?db' = player_answers db" unfolding eq by simp
  have pid': "select_player_id ?db' u = Some pid"
    unfolding eq using assms(2) by (simp add: select_player_id_def)
  have none: "select_active_session ?db' (Some pid) = None"
  proof (rule select_active_session_None, rule ballI)
    fix g' assume "g' \<in> set (game_sessions ?db')"
    then obtain g where g: "g \<in> set (game_sessions db)" "g' = ?f g" unfolding rows by auto
    show "\<not> is_open_session_of pid g'"
    proof (cases "gs_session_id g = ?sid")
      case True
      then show ?thesis using g(2) by (simp add: is_open_session_of_def)
    next
      case False
      then have same: "g' = g" using g(2) by simp
      show ?thesis
      proof
        assume "is_open_session_of pid g'"
        then have "gs_is_active g" "gs_player_id g = Some pid"
          using same by (simp_all add: is_open_session_of_def)
        then have "gs_session_id g = ?sid"
          using wf_db_one_active[OF assms(1) g(1) assms(3)] assms(4,5) by simp
        with False show False by simp
      qed
    qed
  qed
  have noop: "\<forall>db2. select_active_session db2 (select_player_id db2 u) = None \<longrightarrow>
                sp_completing_session db2 u = db2"
    by (simp add: sp_completing_session_unfold)
  have again: "sp_completing_session ?db' u = ?db'"
    using noop none pid' by simp
  show ?thesis
    by (intro conjI rows row n pas none again noop)
qed

lemma example_full_session:
  "wf_db (example_session_with [1..<21] [1..<21])"
  "select_player_id (example_session_with [1..<21] [1..<21]) ''ann'' = Some 1"
  "\<lparr>gs_session_id = 1, gs_player_id = Some 1, gs_start_time = 5, gs_end_time = None,
    gs_questions_solved = 20, gs_is_completed = False, gs_is_active = True\<rparr>
     \<in> set (game_sessions (example_session_with [1..<21] [1..<21]))"
  "Max (pa_answered_at ` set (answers_of_session (example_session_with [1..<21] [1..<21]) 1)) = 120"
  "game_sessions (example_session_with [1..<21] [1..<21]) =
     [\<lparr>gs_session_id = 1, gs_player_id = Some 1, gs_start_time = 5, gs_end_time = None,
       gs_questions_solved = 20, gs_is_completed = False, gs_is_active = True\<rparr>]"
  by code_simp+

theorem finalize_completes_session_witness:
  "game_sessions (sp_completing_session (example_session_with [1..<21] [1..<21]) ''ann'') =
     [\<lparr>gs_session_id = 1, gs_player_id = Some 1, gs_start_time = 5, gs_end_time = Some 120,
       gs_questions_solved = 20, gs_is_completed = True, gs_is_active = False\<rparr>] \<and>
   length (answers_of_session (example_session_with [1..<21] [1..<21]) 1) = 20 \<and>
   select_active_session
     (sp_completing_session (example_session_with [1..<21] [1..<21]) ''ann'') (Some 1) = None \<and>
   sp_completing_session
     (sp_completing_session (example_session_with [1..<21] [1..<21]) ''ann'') ''ann'' =
     sp_completing_session (example_session_with [1..<21] [1..<21]) ''ann''"
proof -
  let ?row = "\<lparr>gs_session_id = 1, gs_player_id = Some 1, gs_start_time = 5, gs_end_time = None,
    gs_questions_solved = 20, gs_is_completed = False, gs_is_active = True\<rparr>"
  have p: "gs_player_id ?row = Some 1" and a: "gs_is_active ?row"
    and n: "gs_questions_solved ?row = 20" and i: "gs_session_id ?row = 1"
    by simp_all
  from finalize_completes_session[OF example_full_session(1,2,3) p a n]
  show ?thesis unfolding i example_full_session(4) example_full_session(5) by simp
qed


section \<open>Resetting a game\<close>

text \<open>
  C9. In a well-formed database let \<open>gs\<close> be the active session of the player. After
  \<open>sp_reset_player_answers\<close> no row of \<open>player_answers\<close> belongs to that session, the rows
  of the other sessions are as before, and in \<open>game_sessions\<close> only \<open>is_active\<close> of that
  session has changed, to FALSE: \<open>is_completed\<close>, \<open>start_time\<close>, \<open>end_time\<close> (and
  \<open>questions_solved\<close>) keep their values. \<open>reset_game\<close> runs the procedure through
  \<open>execute_pg_procedure\<close>, which commits the deletion and the deactivation together; had
  the call raised, the connection would have been rolled back and neither would be kept.
\<close>

theorem reset_deletes_answers_and_deactivates:
  assumes "wf_db db" "select_player_id db u = Some pid"
      and "gs \<in> set (game_sessions db)" "gs_player_id gs = Some pid" "gs_is_active gs"
  shows "answers_of_session (sp_reset_player_answers db u) (gs_session_id gs) = [] \<and>
         player_answers (sp_reset_player_answers db u) =
           filter (\<lambda>pa. pa_session_id pa \<noteq> gs_session_id gs) (player_answers db) \<and>
         game_sessions (sp_reset_player_answers db u) =
           map (\<lambda>g. if gs_session_id g = gs_session_id gs then g\<lparr>gs_is_active := False\<rparr> else g)
               (game_sessions db) \<and>
         gs\<lparr>gs_is_active := False\<rparr> \<in> set (game_sessions (sp_reset_player_answers db u)) \<and>
         (working conn = db \<longrightarrow>
            reset_game conn u =
              (Inr None, \<lparr>committed = sp_reset_player_answers db u,
                          working = sp_reset_player_answers db u\<rparr>)) \<and>
         (\<forall>body err. body (working conn) = Inl err \<longrightarrow>
            execute_pg_procedure conn ''sp_reset_player_answers'' body =
              (Inl (DatabaseError err), rollback conn))"
proof -
  let ?sid = "gs_session_id gs"
  let ?db' = "sp_reset_player_answers db u"
  let ?f = "\<lambda>g. if gs_session_id g = ?sid then g\<lparr>gs_is_active := False\<rparr> else g"
  have sid: "select_active_session db (Some pid) = Some ?sid"
    by (rule wf_db_select_active_row[OF assms(1,3,4,5)])
  have eq: "?db' = db\<lparr>player_answers :=
                    filter (\<lambda>pa. \<not> (pa_player_id pa = pid \<and> pa_session_id pa = ?sid))
                           (player_answers db),
                  game_sessions := map ?f (game_sessions db)\<rparr>"
    by (simp add: sp_reset_player_answers_unfold assms(2) sid)
  have keep: "filter (\<lambda>pa. \<not> (pa_player_id pa = pid \<and> pa_session_id pa = ?sid))
                (player_answers db) =
              filter (\<lambda>pa. pa_session_id pa \<noteq> ?sid) (player_answers db)"
  proof (rule filter_cong[OF refl])
    fix pa assume "pa \<in> set (player_answers db)"
    then show "(\<not> (pa_player_id pa = pid \<and> pa_session_id pa = ?sid)) = (pa_session_id pa \<noteq> ?sid)"
      using wf_db_answers_of_player[OF assms(1,3,4), of pa] by auto
  qed
  have pas: "player_answers ?db' = filter (\<lambda>pa. pa_session_id pa \<noteq> ?sid) (player_answers db)"
    unfolding eq using keep by simp
  have gone: "answers_of_session ?db' ?sid = []"
    by (simp add: answers_of_session_def pas filter_empty_conv)
  have rows: "game_sessions ?db' = map ?f (game_sessions db)" unfolding eq by simp
  have row: "gs\<lparr>gs_is_active := False\<rparr> \<in> set (game_sessions ?db')"
  proof -
    have "?f gs \<in> ?f ` set (game_sessions db)" using assms(3) by (rule imageI)
    then show ?thesis unfolding rows by simp
  qed
  have call: "working conn = db \<longrightarrow>
            reset_game conn u = (Inr None, \<lparr>committed = ?db', working = ?db'\<rparr>)"
    by (simp add: reset_game_def execute_pg_procedure_def commit_def)
  have fail: "\<forall>body err. body (working conn) = Inl err \<longrightarrow>
            execute_pg_procedure conn ''sp_reset_player_answers'' body =
              (Inl (DatabaseError err), rollback conn)"
    by (simp add: execute_pg_procedure_def)
  show ?thesis by (intro conjI gone pas rows row call fail)
qed

lemma example_answered_session:
  "wf_db example_db_answered"
  "select_player_id example_db_answered ''ann'' = Some 1"
  "\<lparr>gs_session_id = 1, gs_player_id = Some 1, gs_start_time = 5, gs_end_time = None,
    gs_questions_solved = 1, gs_is_completed = False, gs_is_active = True\<rparr>
     \<in> set (game_sessions example_db_answered)"
  "game_sessions example_db_answered =
     [\<lparr>gs_session_id = 1, gs_player_id = Some 1, gs_start_time = 5, gs_end_time = None,
       gs_questions_solved = 1, gs_is_completed = False, gs_is_active = True\<rparr>]"
  "player_answers example_db_answered = [new_player_answer 1 1 1 (CHR ''a'') True 10]"
  by code_simp+

theorem reset_deletes_answers_and_deactivates_witness:
  "player_answers (sp_reset_player_answers example_db_answered ''ann'') = [] \<and>
   game_sessions (sp_reset_player_answers example_db_answered ''ann'') =
     [\<lparr>gs_session_id = 1, gs_player_id = Some 1, gs_start_time = 5, gs_end_time = None,
       gs_questions_solved = 1, gs_is_completed = False, gs_is_active = False\<rparr>] \<and>
   reset_game (connect_to_pg example_db_answered) ''ann'' =
     (Inr None, connect_to_pg (sp_reset_player_answers example_db_answered ''ann''))"
proof -
  let ?row = "\<lparr>gs_session_id = 1, gs_player_id = Some 1, gs_start_time = 5, gs_end_time = None,
    gs_questions_solved = 1, gs_is_completed = False, gs_is_active = True\<rparr>"
  have p: "gs_player_id ?row = Some 1" and a: "gs_is_active ?row" and i: "gs_session_id ?row = 1"
    by simp_all
  have w: "working (connect_to_pg example_db_answered) = example_db_answered"
    by (simp add: connect_to_pg_def)
  note t = reset_deletes_answers_and_deactivates
         [OF example_answered_session(1,2,3) p a, of "connect_to_pg example_db_answered",
          unfolded i example_answered_session(4) example_answered_session(5)]
  from t have "player_answers (sp_reset_player_answers example_db_answered ''ann'') =
      filter (\<lambda>pa. pa_session_id pa \<noteq> 1) [new_player_answer 1 1 1 (CHR ''a'') True 10]"
    by (elim conjE)
  then have 1: "player_answers (sp_reset_player_answers example_db_answered ''ann'') = []"
    by (simp add: new_player_answer_def)
  from t have "game_sessions (sp_reset_player_answers example_db_answered ''ann'') =
      map (\<lambda>g. if gs_session_id g = 1 then g\<lparr>gs_is_active := False\<rparr> else g) [?row]"
    by (elim conjE)
  then have 2: "game_sessions (sp_reset_player_answers example_db_answered ''ann'') =
     [\<lparr>gs_session_id = 1, gs_player_id = Some 1, gs_start_time = 5, gs_end_time = None,
       gs_questions_solved = 1, gs_is_completed = False, gs_is_active = False\<rparr>]"
    by simp
  from t w have 3: "reset_game (connect_to_pg example_db_answered) ''ann'' =
     (Inr None, \<lparr>committed = sp_reset_player_answers example_db_answered ''ann'',
                 working = sp_reset_player_answers example_db_answered ''ann''\<rparr>)"
    by blast
  have 4: "(Inr None, \<lparr>committed = sp_reset_player_answers example_db_answered ''ann'',
                 working = sp_reset_player_answers example_db_answered ''ann''\<rparr>) =
           (Inr None, connect_to_pg (sp_reset_player_answers example_db_answered ''ann''))"
    by (simp add: connect_to_pg_def)
  show ?thesis
    by (intro conjI 1 2 trans[OF 3 4])
qed


section \<open>The unanswered questions of a session\<close>

text \<open>\<open>ORDER BY RANDOM()\<close> permutes the rows.\<close>

lemma order_by_random_props:
  "length (order_by_random rand rows) = length rows"
  "set (order_by_random rand rows) = set rows"
  "distinct (map f (order_by_random rand rows)) = distinct (map f rows)"
proof -
  let ?zs = "zip (map rand [0..<length rows]) rows"
  have snd: "map snd ?zs = rows" by (simp add: map_snd_zip)
  show "length (order_by_random rand rows) = length rows"
    by (simp add: order_by_random_def)
  have "set (order_by_random rand rows) = snd ` set ?zs"
    by (simp add: order_by_random_def)
  also have "\<dots> = set (map snd ?zs)" by (simp only: set_map)
  finally show "set (order_by_random rand rows) = set rows" unfolding snd .
  have "distinct (map f (order_by_random rand rows)) =
          distinct (map (f \<circ> snd) (sort_key fst ?zs))"
    by (simp add: order_by_random_def)
  also have "\<dots> = distinct (map (f \<circ> snd) ?zs)"
    by (simp only: distinct_map distinct_sort set_sort)
  also have "map (f \<circ> snd) ?zs = map f (map snd ?zs)" by (simp only: map_map)
  finally show "distinct (map f (order_by_random rand rows)) = distinct (map f rows)"
    unfolding snd .
qed

text \<open>
  C6, as the code has it. In a well-formed database let \<open>gs\<close> be the active session of
  the player, and call unanswered the questions whose id has no row of \<open>player_answers\<close>
  in that session. If \<open>questions_solved\<close> is at most 20, \<open>fn_get_unanswered_questions\<close>
  returns rows of \<open>questions\<close> with distinct ids, all unanswered, and leaves the database
  as it is; it returns \<open>20 - questions_solved\<close> rows when that many are unanswered,
  exactly 20 for a session without answers when there are 20 questions, and all
  unanswered questions when there are fewer than required. If \<open>questions_solved\<close> is
  above 20 the LIMIT is negative and the call raises.
\<close>

theorem unanswered_questions_of_session:
  assumes "wf_db db" "select_player_id db u = Some pid"
      and "gs \<in> set (game_sessions db)" "gs_player_id gs = Some pid" "gs_is_active gs"
  shows "(gs_questions_solved gs \<le> 20 \<longrightarrow>
           (\<exists>rows.
              fn_get_unanswered_questions db u now rand = Inr (rows, db) \<and>
              distinct (map q_question_id rows) \<and>
              set rows \<subseteq> set (questions db) \<and>
              (\<forall>q \<in> set rows. q_question_id q \<notin>
                  pa_question_id ` set (answers_of_session db (gs_session_id gs))) \<and>
              (20 - gs_questions_solved gs \<le>
                 length (filter (\<lambda>q. q_question_id q \<notin>
                            pa_question_id ` set (answers_of_session db (gs_session_id gs)))
                          (questions db)) \<longrightarrow>
               length rows = 20 - gs_questions_solved gs) \<and>
              (gs_questions_solved gs = 0 \<and> 20 \<le> length (questions db) \<longrightarrow>
               length rows = 20) \<and>
              (length (filter (\<lambda>q. q_question_id q \<notin>
                            pa_question_id ` set (answers_of_session db (gs_session_id gs)))
                          (questions db)) \<le> 20 - gs_questions_solved gs \<longrightarrow>
               set rows = {q \<in> set (questions db). q_question_id q \<notin>
                            pa_question_id ` set (answers_of_session db (gs_session_id gs))} \<and>
               length rows =
                 length (filter (\<lambda>q. q_question_id q \<notin>
                            pa_question_id ` set (answers_of_session db (gs_session_id gs)))
                          (questions db))))) \<and>
         (20 < gs_questions_solved gs \<longrightarrow>
            fn_get_unanswered_questions db u now rand = Inl InvalidRowCountInLimit)"
proof -
  let ?sid = "gs_session_id gs"
  let ?done = "pa_question_id ` set (answers_of_session db ?sid)"
  let ?U = "filter (\<lambda>q. q_question_id q \<notin> ?done) (questions db)"
  let ?n = "20 - gs_questions_solved gs"
  let ?rows = "take ?n (order_by_random rand ?U)"
  have sid: "select_active_session db (Some pid) = Some ?sid"
    by (rule wf_db_select_active_row[OF assms(1,3,4,5)])
  have cnt: "length (answers_of_session db ?sid) = gs_questions_solved gs"
    using wf_db_counter[OF assms(1,3,5)] by simp
  have ao: "answers_of db (Some pid) (Some ?sid) = answers_of_session db ?sid"
    by (rule wf_db_answers_of[OF assms(1,3,4)])
  have U: "unanswered_questions db (Some pid) ?sid = ?U"
    by (simp add: unanswered_questions_def ao)
  have fn: "fn_get_unanswered_questions db u now rand =
              (if 20 < gs_questions_solved gs then Inl InvalidRowCountInLimit
               else Inr (?rows, db))"
    by (simp add: fn_get_unanswered_questions_def assms(2) get_or_create_active_session_def
          sid ao cnt U Let_def)
  have dU: "distinct (map q_question_id ?U)"
    by (rule distinct_map_filter[OF wf_db_questions[OF assms(1)]])
  have "distinct (take ?n (map q_question_id (order_by_random rand ?U)))"
    by (rule distinct_take) (simp only: order_by_random_props(3) dU)
  then have d: "distinct (map q_question_id ?rows)" by (simp only: take_map)
  have sub: "set ?rows \<subseteq> set ?U"
    using set_take_subset[of ?n "order_by_random rand ?U"]
    by (simp only: order_by_random_props(2))
  have sq: "set ?rows \<subseteq> set (questions db)" using sub by auto
  have new: "\<forall>q \<in> set ?rows. q_question_id q \<notin> ?done" using sub by auto
  have len: "length ?rows = min (length ?U) ?n"
    by (simp only: length_take order_by_random_props(1))
  have enough: "?n \<le> length ?U \<longrightarrow> length ?rows = ?n" using len by simp
  have fresh: "gs_questions_solved gs = 0 \<and> 20 \<le> length (questions db) \<longrightarrow> length ?rows = 20"
  proof
    assume h: "gs_questions_solved gs = 0 \<and> 20 \<le> length (questions db)"
    then have "answers_of_session db ?sid = []" using cnt by simp
    then have "?U = questions db" by simp
    then show "length ?rows = 20" using len h by simp
  qed
  have fewer: "length ?U \<le> ?n \<longrightarrow>
                 set ?rows = {q \<in> set (questions db). q_question_id q \<notin> ?done} \<and>
                 length ?rows = length ?U"
  proof
    assume "length ?U \<le> ?n"
    then have "?rows = order_by_random rand ?U"
      by (simp only: take_all order_by_random_props(1))
    then have "set ?rows = set ?U" "length ?rows = length ?U"
      by (simp_all only: order_by_random_props)
    then show "set ?rows = {q \<in> set (questions db). q_question_id q \<notin> ?done} \<and>
                 length ?rows = length ?U"
      by simp
  qed
  have ok: "gs_questions_solved gs \<le> 20 \<longrightarrow>
           (\<exists>rows.
              fn_get_unanswered_questions db u now rand = Inr (rows, db) \<and>
              distinct (map q_question_id rows) \<and>
              set rows \<subseteq> set (questions db) \<and>
              (\<forall>q \<in> set rows. q_question_id q \<notin> ?done) \<and>
              (?n \<le> length ?U \<longrightarrow> length rows = ?n) \<and>
              (gs_questions_solved gs = 0 \<and> 20 \<le> length (questions db) \<longrightarrow> length rows = 20) \<and>
              (length ?U \<le> ?n \<longrightarrow>
               set rows = {q \<in> set (questions db). q_question_id q \<notin> ?done} \<and>
               length rows = length ?U))"
  proof
    assume "gs_questions_solved gs \<le> 20"
    then have r: "fn_get_unanswered_questions db u now rand = Inr (?rows, db)"
      using fn by simp
    show "\<exists>rows.
              fn_get_unanswered_questions db u now rand = Inr (rows, db) \<and>
              distinct (map q_question_id rows) \<and>
              set rows \<subseteq> set (questions db) \<and>
              (\<forall>q \<in> set rows. q_question_id q \<notin> ?done) \<and>
              (?n \<le> length ?U \<longrightarrow> length rows = ?n) \<and>
              (gs_questions_solved gs = 0 \<and> 20 \<le> length (questions db) \<longrightarrow> length rows = 20) \<and>
              (length ?U \<le> ?n \<longrightarrow>
               set rows = {q \<in> set (questions db). q_question_id q \<notin> ?done} \<and>
               length rows = length ?U)"
      by (intro exI[of _ ?rows] conjI r d sq new enough fresh fewer)
  qed
  have err: "20 < gs_questions_solved gs \<longrightarrow>
            fn_get_unanswered_questions db u now rand = Inl InvalidRowCountInLimit"
    using fn by simp
  show ?thesis by (intro conjI ok err)
qed

lemma example_five_answered:
  "wf_db (example_session_with [1..<31] [1..<6])"
  "select_player_id (example_session_with [1..<31] [1..<6]) ''ann'' = Some 1"
  "\<lparr>gs_session_id = 1, gs_player_id = Some 1, gs_start_time = 5, gs_end_time = None,
    gs_questions_solved = 5, gs_is_completed = False, gs_is_active = True\<rparr>
     \<in> set (game_sessions (example_session_with [1..<31] [1..<6]))"
  "length (filter (\<lambda>q. q_question_id q \<notin>
              pa_question_id ` set (answers_of_session (example_session_with [1..<31] [1..<6]) 1))
            (questions (example_session_with [1..<31] [1..<6]))) = 25"
  by code_simp+

theorem unanswered_questions_of_session_witness:
  "\<exists>rows.
     fn_get_unanswered_questions (example_session_with [1..<31] [1..<6]) ''ann'' 200 id =
       Inr (rows, example_session_with [1..<31] [1..<6]) \<and>
     distinct (map q_question_id rows) \<and>
     (\<forall>q \<in> set rows. q_question_id q \<notin>
         pa_question_id ` set (answers_of_session (example_session_with [1..<31] [1..<6]) 1)) \<and>
     length rows = 15"
proof -
  let ?X = "example_session_with [1..<31] [1..<6]"
  let ?row = "\<lparr>gs_session_id = 1, gs_player_id = Some 1, gs_start_time = 5, gs_end_time = None,
    gs_questions_solved = 5, gs_is_completed = False, gs_is_active = True\<rparr>"
  have p: "gs_player_id ?row = Some 1" and a: "gs_is_active ?row"
    and i: "gs_session_id ?row = 1" and s: "gs_questions_solved ?row = 5"
    by simp_all
  note t = unanswered_questions_of_session
             [OF example_five_answered(1,2,3) p a, of 200 id, unfolded i s example_five_answered(4)]
  from t obtain rows where
    "fn_get_unanswered_questions ?X ''ann'' 200 id = Inr (rows, ?X)"
    "distinct (map q_question_id rows)"
    "\<forall>q \<in> set rows. q_question_id q \<notin> pa_question_id ` set (answers_of_session ?X 1)"
    "length rows = 20 - 5"
    by auto
  then show ?thesis by (intro exI[of _ rows]) simp
qed

text \<open>
  The claim as the spec words it, for every player with an active session, fails when
  the session has more than 20 answers: with 22 questions of which ann has answered 21
  in her active session, the call raises instead of returning a list. The state is
  reached by 21 record calls.
\<close>

theorem unanswered_raises_beyond_twenty:
  "wf_db (example_session_with [1..<23] [1..<22]) \<and>
   select_active_session (example_session_with [1..<23] [1..<22])
     (select_player_id (example_session_with [1..<23] [1..<22]) ''ann'') = Some 1 \<and>
   fn_get_unanswered_questions (example_session_with [1..<23] [1..<22]) ''ann'' 200 id =
     Inl InvalidRowCountInLimit"
  by code_simp

lemma example_twenty_one_records:
  "record_all (example_session_with [1..<23] []) ''ann''
     (map (\<lambda>q. (q, CHR ''a'', 100 + int q)) [1..<22]) =
   Inr (example_session_with [1..<23] [1..<22])"
  by code_simp


end
